theory Spec2Isabelle
  imports Main "HOL-Library.Word" "HOL-Library.Monad_Syntax" "HOL-Library.Multiset"
begin

section \<open>Single-precision floating point\<close>

text \<open>
  The routine \<^verbatim>\<open>transform_bounds\<close> computes with the C type \<^verbatim>\<open>float\<close>. A value of that
  type is modelled by its IEEE-754 binary32 bit pattern: bit 31 is the sign, bits 30..23 the
  biased exponent, bits 22..0 the fraction. Every 32-bit pattern is a float, so the type has
  exactly the inhabitants of the C type, NaNs, infinities and both zeros included.
\<close>

type_synonym f32 = "32 word"

definition f32_sign :: "f32 \<Rightarrow> bool" where
  "f32_sign w = (2147483648 \<le> unat w)"  \<comment> \<open>bit 31 is set\<close>

text \<open>The 31 bits below the sign, read as a number: exponent and fraction together.\<close>

definition f32_mag :: "f32 \<Rightarrow> nat" where
  "f32_mag w = unat w mod 2147483648"

definition inf_mag :: nat where
  "inf_mag = 2139095040"  \<comment> \<open>\<^verbatim>\<open>0x7F800000\<close>: exponent 255, fraction 0\<close>

definition is_nan :: "f32 \<Rightarrow> bool" where
  "is_nan w = (inf_mag < f32_mag w)"

definition is_inf :: "f32 \<Rightarrow> bool" where
  "is_inf w = (f32_mag w = inf_mag)"

definition is_finite :: "f32 \<Rightarrow> bool" where
  "is_finite w = (f32_mag w < inf_mag)"

definition mk_f32 :: "bool \<Rightarrow> nat \<Rightarrow> f32" where
  "mk_f32 neg m = word_of_nat ((if neg then 2147483648 else 0) + m)"

definition f32_nan :: f32 where
  "f32_nan = 2143289344"  \<comment> \<open>\<^verbatim>\<open>0x7FC00000\<close>, the quiet NaN that an invalid operation produces\<close>

subsection \<open>Comparison\<close>

text \<open>
  IEEE-754 comparison: a NaN is unordered with everything, itself included; the two zeros
  are equal; otherwise floats compare as sign-magnitude integers, because the encoding of
  the magnitude is monotone.
\<close>

definition f32_key :: "f32 \<Rightarrow> int" where
  "f32_key w = (if f32_sign w then - int (f32_mag w) else int (f32_mag w))"

definition flt :: "f32 \<Rightarrow> f32 \<Rightarrow> bool" where
  "flt a b = (\<not> is_nan a \<and> \<not> is_nan b \<and> f32_key a < f32_key b)"

definition fgt :: "f32 \<Rightarrow> f32 \<Rightarrow> bool" where
  "fgt a b = flt b a"

definition fle :: "f32 \<Rightarrow> f32 \<Rightarrow> bool" where
  "fle a b = (\<not> is_nan a \<and> \<not> is_nan b \<and> f32_key a \<le> f32_key b)"

definition feq :: "f32 \<Rightarrow> f32 \<Rightarrow> bool" where
  "feq a b = (\<not> is_nan a \<and> \<not> is_nan b \<and> f32_key a = f32_key b)"

subsection \<open>Arithmetic\<close>

text \<open>
  Every finite float is an integer multiple of \<open>2\<^sup>-\<^sup>1\<^sup>4\<^sup>9\<close>, the smallest subnormal.
  \<open>mag_units\<close> gives that multiple for a magnitude: \<open>f\<close> for a subnormal (exponent field 0),
  \<open>(2\<^sup>2\<^sup>3 + f) * 2\<^sup>e\<^sup>-\<^sup>1\<close> for exponent field \<open>e > 0\<close>.
\<close>

definition mag_units :: "nat \<Rightarrow> nat" where
  "mag_units m =
     (let e = m div 8388608; f = m mod 8388608
      in if e = 0 then f else (8388608 + f) * 2 ^ (e - 1))"

definition f32_units :: "f32 \<Rightarrow> int" where
  "f32_units w = (if f32_sign w then - int (mag_units (f32_mag w)) else int (mag_units (f32_mag w)))"

fun bitlen :: "nat \<Rightarrow> nat" where
  "bitlen n = (if n = 0 then 0 else Suc (bitlen (n div 2)))"

declare bitlen.simps [simp del]

text \<open>
  Rounding to nearest, ties to even. \<open>round_half_even a k\<close> drops the \<open>k\<close> low bits of \<open>a\<close>
  and rounds the quotient up when the remainder is above one half, or is one half with an odd
  quotient. \<open>round_mag a d\<close> is the magnitude of the float nearest to \<open>a / 2\<^sup>d\<close> units: as
  many bits are dropped as leaves at most 24 significant bits and nothing below one unit, and
  the exponent field is added to the rounded quotient; a carry out of the significand moves
  into the exponent, and whatever reaches exponent 255 is infinity.
\<close>

definition round_half_even :: "nat \<Rightarrow> nat \<Rightarrow> nat" where
  "round_half_even a k =
     (let q = a div 2 ^ k; r = a mod 2 ^ k
      in if 2 ^ k < 2 * r \<or> (2 ^ k = 2 * r \<and> odd q) then q + 1 else q)"

definition round_mag :: "nat \<Rightarrow> nat \<Rightarrow> nat" where
  "round_mag a d =
     (let k = max d (bitlen a - 24)
      in min inf_mag ((k - d) * 8388608 + round_half_even a k))"

text \<open>
  Addition and multiplication, each rounded once (C Annex F with \<^verbatim>\<open>FLT_EVAL_METHOD\<close> 0 and
  no contraction of products into sums). An operation on a NaN, \<open>\<infinity> + -\<infinity>\<close> and \<open>0 * \<infinity>\<close>
  give a NaN; an exact zero sum is \<open>+0\<close> unless both operands are \<open>-0\<close>; the sign of a product
  is the exclusive or of the signs.
\<close>

definition fadd :: "f32 \<Rightarrow> f32 \<Rightarrow> f32" where
  "fadd a b =
     (if is_nan a \<or> is_nan b then f32_nan
      else if is_inf a then (if is_inf b \<and> f32_sign a \<noteq> f32_sign b then f32_nan else a)
      else if is_inf b then b
      else let s = f32_units a + f32_units b
           in if s = 0 then mk_f32 (f32_sign a \<and> f32_sign b) 0
              else mk_f32 (s < 0) (round_mag (nat \<bar>s\<bar>) 0))"

definition fmul :: "f32 \<Rightarrow> f32 \<Rightarrow> f32" where
  "fmul a b =
     (if is_nan a \<or> is_nan b then f32_nan
      else if is_inf a \<or> is_inf b then
        (if f32_mag a = 0 \<or> f32_mag b = 0 then f32_nan
         else mk_f32 (f32_sign a \<noteq> f32_sign b) inf_mag)
      else mk_f32 (f32_sign a \<noteq> f32_sign b)
             (round_mag (mag_units (f32_mag a) * mag_units (f32_mag b)) 149))"

section \<open>Memory\<close>

text \<open>
  The vertex buffer is addressed in bytes: \<^verbatim>\<open>base\<close> is \<^verbatim>\<open>(const char*)vertices\<close>. The memory
  reachable from that pointer is a partial map from signed byte offsets to bytes; an offset
  with no byte is outside the object, and a read there is undefined behaviour (\<open>None\<close>).
  A null pointer is \<open>None\<close> at the level of the argument. Floats are stored little-endian.
\<close>

type_synonym byte = "8 word"
type_synonym memory = "int \<Rightarrow> byte option"

definition f32_of_bytes :: "byte \<Rightarrow> byte \<Rightarrow> byte \<Rightarrow> byte \<Rightarrow> f32" where
  "f32_of_bytes b0 b1 b2 b3 =
     word_of_nat (unat b0 + 256 * unat b1 + 65536 * unat b2 + 16777216 * unat b3)"

definition bytes_of_f32 :: "f32 \<Rightarrow> byte list" where
  "bytes_of_f32 w =
     [word_of_nat (unat w mod 256), word_of_nat (unat w div 256 mod 256),
      word_of_nat (unat w div 65536 mod 256), word_of_nat (unat w div 16777216)]"

definition load_f32 :: "memory \<Rightarrow> int \<Rightarrow> f32 option" where
  "load_f32 mem a =
     (case (mem a, mem (a + 1), mem (a + 2), mem (a + 3)) of
        (Some b0, Some b1, Some b2, Some b3) \<Rightarrow> Some (f32_of_bytes b0 b1 b2 b3)
      | _ \<Rightarrow> None)"

text \<open>\<^verbatim>\<open>pos[0]\<close>, \<^verbatim>\<open>pos[1]\<close>, \<^verbatim>\<open>pos[2]\<close> for \<^verbatim>\<open>pos\<close> at byte offset \<open>a\<close>.\<close>

definition load_pos :: "memory \<Rightarrow> int \<Rightarrow> (f32 \<times> f32 \<times> f32) option" where
  "load_pos mem a =
     (case (load_f32 mem a, load_f32 mem (a + 4), load_f32 mem (a + 8)) of
        (Some x, Some y, Some z) \<Rightarrow> Some (x, y, z)
      | _ \<Rightarrow> None)"

text \<open>A buffer of bytes that starts at the pointer.\<close>

definition mem_of_bytes :: "byte list \<Rightarrow> memory" where
  "mem_of_bytes bs a = (if 0 \<le> a \<and> a < int (length bs) then Some (bs ! nat a) else None)"

section \<open>The routine\<close>

text \<open>
  The matrix argument points to an array of floats, given as the list of its elements;
  \<open>None\<close> is the null pointer, and an index past the end is undefined behaviour.
\<close>

definition load_elem :: "f32 list option \<Rightarrow> nat \<Rightarrow> f32 option" where
  "load_elem matrix k =
     (case matrix of None \<Rightarrow> None
      | Some m \<Rightarrow> if k < length m then Some (m ! k) else None)"

record coeffs =
  m00 :: f32  m01 :: f32  m02 :: f32  m03 :: f32
  m10 :: f32  m11 :: f32  m12 :: f32  m13 :: f32
  m20 :: f32  m21 :: f32  m22 :: f32  m23 :: f32

definition load_coeffs :: "f32 list option \<Rightarrow> coeffs option" where
  "load_coeffs matrix = do {
     a00 \<leftarrow> load_elem matrix 0;  a01 \<leftarrow> load_elem matrix 4;
     a02 \<leftarrow> load_elem matrix 8;  a03 \<leftarrow> load_elem matrix 12;
     a10 \<leftarrow> load_elem matrix 1;  a11 \<leftarrow> load_elem matrix 5;
     a12 \<leftarrow> load_elem matrix 9;  a13 \<leftarrow> load_elem matrix 13;
     a20 \<leftarrow> load_elem matrix 2;  a21 \<leftarrow> load_elem matrix 6;
     a22 \<leftarrow> load_elem matrix 10; a23 \<leftarrow> load_elem matrix 14;
     Some \<lparr> m00 = a00, m01 = a01, m02 = a02, m03 = a03,
            m10 = a10, m11 = a11, m12 = a12, m13 = a13,
            m20 = a20, m21 = a21, m22 = a22, m23 = a23 \<rparr>
   }"

text \<open>\<^verbatim>\<open>tx = m00 * x + m01 * y + m02 * z + m03\<close> and its two siblings, left to right.\<close>

definition affine_row :: "f32 \<Rightarrow> f32 \<Rightarrow> f32 \<Rightarrow> f32 \<Rightarrow> f32 \<Rightarrow> f32 \<Rightarrow> f32 \<Rightarrow> f32" where
  "affine_row a b c t x y z = fadd (fadd (fadd (fmul a x) (fmul b y)) (fmul c z)) t"

fun transform_point :: "coeffs \<Rightarrow> f32 \<times> f32 \<times> f32 \<Rightarrow> f32 \<times> f32 \<times> f32" where
  "transform_point M (x, y, z) =
     (affine_row (m00 M) (m01 M) (m02 M) (m03 M) x y z,
      affine_row (m10 M) (m11 M) (m12 M) (m13 M) x y z,
      affine_row (m20 M) (m21 M) (m22 M) (m23 M) x y z)"

declare transform_point.simps [simp del]

record bounds =
  minx :: f32  maxx :: f32
  miny :: f32  maxy :: f32
  minz :: f32  maxz :: f32

definition zero_bounds :: bounds where
  "zero_bounds = \<lparr> minx = 0, maxx = 0, miny = 0, maxy = 0, minz = 0, maxz = 0 \<rparr>"

text \<open>The body of the loop after the transformed point is known.\<close>

fun tb_step :: "nat \<Rightarrow> f32 \<times> f32 \<times> f32 \<Rightarrow> bounds \<Rightarrow> bounds" where
  "tb_step i (tx, ty, tz) b =
     (if i = 0 then
        \<lparr> minx = tx, maxx = tx, miny = ty, maxy = ty, minz = tz, maxz = tz \<rparr>
      else
        \<lparr> minx = (if flt tx (minx b) then tx else minx b),
          maxx = (if fgt tx (maxx b) then tx else maxx b),
          miny = (if flt ty (miny b) then ty else miny b),
          maxy = (if fgt ty (maxy b) then ty else maxy b),
          minz = (if flt tz (minz b) then tz else minz b),
          maxz = (if fgt tz (maxz b) then tz else maxz b) \<rparr>)"

declare tb_step.simps [simp del]

text \<open>
  The address of record \<open>i\<close> is \<^verbatim>\<open>base + i * stride_bytes + position_offset\<close>. The product is
  an \<^verbatim>\<open>int\<close> multiplication, whose overflow is undefined behaviour; the two additions are
  pointer arithmetic.
\<close>

definition record_offset :: "int \<Rightarrow> int \<Rightarrow> int \<Rightarrow> int option" where
  "record_offset i stride off =
     (if - 2147483648 \<le> i * stride \<and> i * stride \<le> 2147483647
      then Some (i * stride + off) else None)"

definition load_record :: "memory \<Rightarrow> int \<Rightarrow> int \<Rightarrow> int \<Rightarrow> (f32 \<times> f32 \<times> f32) option" where
  "load_record base stride off i =
     (case record_offset i stride off of None \<Rightarrow> None | Some a \<Rightarrow> load_pos base a)"

text \<open>
  The loop \<^verbatim>\<open>for (int i = 0; i < vertex_count; ++i)\<close>. The counter starts at 0 and stays below
  \<^verbatim>\<open>vertex_count\<close>, so it never overflows and is a natural number here.
\<close>

function tb_loop ::
  "memory \<Rightarrow> int \<Rightarrow> int \<Rightarrow> int \<Rightarrow> coeffs \<Rightarrow> nat \<Rightarrow> bounds \<Rightarrow> bounds option" where
  "tb_loop base n stride off M i b =
     (if int i < n then
        (case load_record base stride off (int i) of
           None \<Rightarrow> None
         | Some p \<Rightarrow> tb_loop base n stride off M (i + 1) (tb_step i (transform_point M p) b))
      else Some b)"
  by pat_completeness auto
termination
  by (relation "measure (\<lambda>(base, n, stride, off, M, i, b). nat n - i)") auto

declare tb_loop.simps [simp del]

text \<open>
  The two output arrays are separate objects of the caller, given as the lists of their
  elements; a store past the end of one is undefined behaviour. \<open>store_log\<close> is a ghost
  field: it records which element each store of the routine went to, in order.
\<close>

datatype out_array = Out_Min | Out_Max

record tb_state =
  out_min :: "f32 list"
  out_max :: "f32 list"
  store_log :: "(out_array \<times> nat) list"

definition store_min :: "nat \<Rightarrow> f32 \<Rightarrow> tb_state \<Rightarrow> tb_state option" where
  "store_min k v s =
     (if k < length (out_min s)
      then Some (s\<lparr> out_min := (out_min s)[k := v], store_log := store_log s @ [(Out_Min, k)] \<rparr>)
      else None)"

definition store_max :: "nat \<Rightarrow> f32 \<Rightarrow> tb_state \<Rightarrow> tb_state option" where
  "store_max k v s =
     (if k < length (out_max s)
      then Some (s\<lparr> out_max := (out_max s)[k := v], store_log := store_log s @ [(Out_Max, k)] \<rparr>)
      else None)"

text \<open>A C \<^verbatim>\<open>int\<close>: 32 bits, read as two's complement by \<open>sint\<close>.\<close>

type_synonym c_int = "32 word"

text \<open>
  \<^verbatim>\<open>transform_bounds\<close>. The chained assignment \<^verbatim>\<open>out_min[0] = out_min[1] = out_min[2] = 0.0f\<close>
  stores the innermost element first. The local \<^verbatim>\<open>vptr\<close> of the source is never used.
\<close>

definition transform_bounds ::
  "memory option \<Rightarrow> c_int \<Rightarrow> c_int \<Rightarrow> c_int \<Rightarrow> f32 list option \<Rightarrow>
   tb_state \<Rightarrow> tb_state option" where
  "transform_bounds vertices vertex_count stride_bytes position_offset matrix s =
     (case (if sint vertex_count \<le> 0 then None else vertices) of
        None \<Rightarrow> do {
          s \<leftarrow> store_min 2 0 s; s \<leftarrow> store_min 1 0 s; s \<leftarrow> store_min 0 0 s;
          s \<leftarrow> store_max 2 0 s; s \<leftarrow> store_max 1 0 s; store_max 0 0 s
        }
      | Some base \<Rightarrow> do {
          M \<leftarrow> load_coeffs matrix;
          b \<leftarrow> tb_loop base (sint vertex_count) (sint stride_bytes) (sint position_offset)
                 M 0 zero_bounds;
          s \<leftarrow> store_min 0 (minx b) s; s \<leftarrow> store_min 1 (miny b) s; s \<leftarrow> store_min 2 (minz b) s;
          s \<leftarrow> store_max 0 (maxx b) s; s \<leftarrow> store_max 1 (maxy b) s; store_max 2 (maxz b) s
        })"

section \<open>Example data\<close>

definition f32_one :: f32 where
  "f32_one = 1065353216"  \<comment> \<open>\<^verbatim>\<open>0x3F800000\<close>, the float 1.0\<close>

definition identity_matrix :: "f32 list" where
  "identity_matrix =
     [f32_one, 0, 0, 0,  0, f32_one, 0, 0,  0, 0, f32_one, 0,  0, 0, 0, f32_one]"

text \<open>Output arrays that hold stale values before the call.\<close>

definition stale_state :: tb_state where
  "stale_state = \<lparr> out_min = [7, 7, 7], out_max = [9, 9, 9], store_log = [] \<rparr>"

section \<open>Vocabulary of the claims\<close>

text \<open>The three output elements of each array, as the caller reads them back.\<close>

definition outputs :: "tb_state \<Rightarrow> f32 list \<times> f32 list" where
  "outputs s = (take 3 (out_min s), take 3 (out_max s))"

text \<open>The six elements the routine is to fill.\<close>

definition output_elements :: "(out_array \<times> nat) set" where
  "output_elements = {Out_Min, Out_Max} \<times> {0, 1, 2}"


section \<open>Bookkeeping for the proofs\<close>

text \<open>
  Coordinate \<open>k\<close> of a point, and the running minimum and maximum of axis \<open>k\<close> in the
  accumulators of the loop (\<open>0\<close> is x, \<open>1\<close> is y, \<open>2\<close> is z).
\<close>

fun coord :: "nat \<Rightarrow> f32 \<times> f32 \<times> f32 \<Rightarrow> f32" where
  "coord k (x, y, z) = (if k = 0 then x else if k = 1 then y else z)"

declare coord.simps [simp del]

definition lo :: "nat \<Rightarrow> bounds \<Rightarrow> f32" where
  "lo k b = (if k = 0 then minx b else if k = 1 then miny b else minz b)"

definition hi :: "nat \<Rightarrow> bounds \<Rightarrow> f32" where
  "hi k b = (if k = 0 then maxx b else if k = 1 then maxy b else maxz b)"

text \<open>
  What the loop does to one axis after record 0: each later value replaces the running minimum
  if it compares less, the running maximum if it compares greater.
\<close>

fun scan_lo :: "f32 \<Rightarrow> f32 list \<Rightarrow> f32" where
  "scan_lo m [] = m"
| "scan_lo m (t # ts) = scan_lo (if flt t m then t else m) ts"

fun scan_hi :: "f32 \<Rightarrow> f32 list \<Rightarrow> f32" where
  "scan_hi m [] = m"
| "scan_hi m (t # ts) = scan_hi (if fgt t m then t else m) ts"

text \<open>
  Coordinate \<open>k\<close> of the transformed position of record \<open>j\<close>, as the call computes it;
  \<open>None\<close> when the call cannot read the record or the matrix.
\<close>

definition transformed_coord ::
  "memory \<Rightarrow> c_int \<Rightarrow> c_int \<Rightarrow> f32 list option \<Rightarrow> nat \<Rightarrow> nat \<Rightarrow> f32 option" where
  "transformed_coord base stride_bytes position_offset matrix j k = do {
     M \<leftarrow> load_coeffs matrix;
     p \<leftarrow> load_record base (sint stride_bytes) (sint position_offset) (int j);
     Some (coord k (transform_point M p))
   }"

text \<open>
  A least (greatest) element of a list of floats for the IEEE order: a member that compares
  less (greater) or equal to every member.
\<close>

definition least_of :: "f32 \<Rightarrow> f32 list \<Rightarrow> bool" where
  "least_of m ts \<longleftrightarrow> m \<in> set ts \<and> list_all (fle m) ts"

definition greatest_of :: "f32 \<Rightarrow> f32 list \<Rightarrow> bool" where
  "greatest_of m ts \<longleftrightarrow> m \<in> set ts \<and> list_all (\<lambda>t. fle t m) ts"

section \<open>Buffers made of records\<close>

text \<open>
  The float stored at byte \<open>q\<close> of a record, the position stored at byte \<open>a\<close>, and the
  twelve bytes of a position.
\<close>

definition f32_at :: "byte list \<Rightarrow> nat \<Rightarrow> f32" where
  "f32_at r q = f32_of_bytes (r ! q) (r ! (q + 1)) (r ! (q + 2)) (r ! (q + 3))"

definition pos_of_record :: "nat \<Rightarrow> byte list \<Rightarrow> f32 \<times> f32 \<times> f32" where
  "pos_of_record a r = (f32_at r a, f32_at r (a + 4), f32_at r (a + 8))"

definition bytes_of_pos :: "f32 \<times> f32 \<times> f32 \<Rightarrow> byte list" where
  "bytes_of_pos p = (case p of (x, y, z) \<Rightarrow> bytes_of_f32 x @ bytes_of_f32 y @ bytes_of_f32 z)"

text \<open>The tightly packed buffer of a list of positions: stride 12, offset 0.\<close>

definition packed :: "(f32 \<times> f32 \<times> f32) list \<Rightarrow> byte list" where
  "packed ps = concat (map bytes_of_pos ps)"

text \<open>
  The vertices \<open>(0,0,0)\<close>, \<open>(1,2,3)\<close>, \<open>(-1,5,0)\<close> of the specification's example, and
  two vertices of which the first has a NaN coordinate.
\<close>

definition example_positions :: "(f32 \<times> f32 \<times> f32) list" where
  "example_positions =
     [(0, 0, 0), (1065353216, 1073741824, 1077936128), (3212836864, 1084227584, 0)]"

definition nan_positions :: "(f32 \<times> f32 \<times> f32) list" where
  "nan_positions = [(f32_nan, 0, 0), (f32_one, 0, 0)]"

text \<open>What \<open>load_coeffs\<close> reads from the identity matrix.\<close>

definition identity_affine :: coeffs where
  "identity_affine =
     \<lparr> m00 = f32_one, m01 = 0, m02 = 0, m03 = 0,
       m10 = 0, m11 = f32_one, m12 = 0, m13 = 0,
       m20 = 0, m21 = 0, m22 = f32_one, m23 = 0 \<rparr>"

text \<open>
  Records with padding: record \<open>i\<close> is the \<open>i\<close>-th padding before, the twelve bytes of the
  \<open>i\<close>-th position, and the \<open>i\<close>-th padding after. The contents of the padding are free.
\<close>

definition padded_records ::
  "byte list list \<Rightarrow> (f32 \<times> f32 \<times> f32) list \<Rightarrow> byte list list \<Rightarrow> byte list list" where
  "padded_records pres ps posts =
     map (\<lambda>(pre, p, post). pre @ bytes_of_pos p @ post) (zip pres (zip ps posts))"

text \<open>Four bytes of padding before the position and eight after: stride 24, offset 4.\<close>

definition pad_before :: "byte list" where "pad_before = [1, 2, 3, 4]"
definition pad_after :: "byte list" where "pad_after = [5, 6, 7, 8, 9, 10, 11, 12]"

section \<open>Translation matrices\<close>

text \<open>
  The matrix with the identity in its upper 3x3 block and \<open>(tx, ty, tz)\<close> in its last column,
  column-major, and what \<open>load_coeffs\<close> reads from it.
\<close>

definition translation_matrix :: "f32 \<Rightarrow> f32 \<Rightarrow> f32 \<Rightarrow> f32 list" where
  "translation_matrix tx ty tz =
     [f32_one, 0, 0, 0,  0, f32_one, 0, 0,  0, 0, f32_one, 0,  tx, ty, tz, f32_one]"

definition translation_affine :: "f32 \<Rightarrow> f32 \<Rightarrow> f32 \<Rightarrow> coeffs" where
  "translation_affine tx ty tz =
     \<lparr> m00 = f32_one, m01 = 0, m02 = 0, m03 = tx,
       m10 = 0, m11 = f32_one, m12 = 0, m13 = ty,
       m20 = 0, m21 = 0, m22 = f32_one, m23 = tz \<rparr>"

text \<open>
  The key of the float nearest to \<open>s\<close> units of \<open>2\<^sup>-\<^sup>1\<^sup>4\<^sup>9\<close>: what a sum of two finite
  floats with the exact value \<open>s\<close> compares as.
\<close>

definition rounded_key :: "int \<Rightarrow> int" where
  "rounded_key s =
     (if s < 0 then - int (round_mag (nat (- s)) 0) else int (round_mag (nat s) 0))"

text \<open>
  Infinities and the negative zero; two vertices of which the first has an infinite
  coordinate, and two vertices that are zeros of different sign.
\<close>

definition f32_inf :: f32 where
  "f32_inf = 2139095040"

definition f32_neg_inf :: f32 where
  "f32_neg_inf = 4286578688"

definition inf_positions :: "(f32 \<times> f32 \<times> f32) list" where
  "inf_positions = [(f32_inf, 0, 0), (f32_one, 0, 0)]"

definition f32_neg_zero :: f32 where
  "f32_neg_zero = 2147483648"

definition zero_positions :: "(f32 \<times> f32 \<times> f32) list" where
  "zero_positions = [(f32_neg_zero, f32_neg_zero, f32_neg_zero), (0, 0, 0)]"

section \<open>The stores of the routine\<close>

lemma three_or_more: "3 \<le> length xs \<Longrightarrow> \<exists>a b c r. xs = a # b # c # r"
  by (cases xs; cases "tl xs"; cases "tl (tl xs)") auto

lemma degenerate_result:
  assumes "3 \<le> length (out_min s)" "3 \<le> length (out_max s)"
  shows "do { s \<leftarrow> store_min 2 0 s; s \<leftarrow> store_min 1 0 s; s \<leftarrow> store_min 0 0 s;
          s \<leftarrow> store_max 2 0 s; s \<leftarrow> store_max 1 0 s; store_max 0 0 s } =
      Some (s\<lparr> out_min := 0 # 0 # 0 # drop 3 (out_min s),
               out_max := 0 # 0 # 0 # drop 3 (out_max s),
               store_log := store_log s @ [(Out_Min, 2), (Out_Min, 1), (Out_Min, 0),
                                           (Out_Max, 2), (Out_Max, 1), (Out_Max, 0)] \<rparr>)"
proof -
  obtain a b c r where mn: "out_min s = a # b # c # r"
    using three_or_more [OF assms(1)] by blast
  obtain a' b' c' r' where mx: "out_max s = a' # b' # c' # r'"
    using three_or_more [OF assms(2)] by blast
  show ?thesis by (simp add: store_min_def store_max_def mn mx)
qed

lemma final_result:
  assumes "3 \<le> length (out_min s)" "3 \<le> length (out_max s)"
  shows "do { s \<leftarrow> store_min 0 x0 s; s \<leftarrow> store_min 1 x1 s; s \<leftarrow> store_min 2 x2 s;
          s \<leftarrow> store_max 0 y0 s; s \<leftarrow> store_max 1 y1 s; store_max 2 y2 s } =
      Some (s\<lparr> out_min := x0 # x1 # x2 # drop 3 (out_min s),
               out_max := y0 # y1 # y2 # drop 3 (out_max s),
               store_log := store_log s @ [(Out_Min, 0), (Out_Min, 1), (Out_Min, 2),
                                           (Out_Max, 0), (Out_Max, 1), (Out_Max, 2)] \<rparr>)"
proof -
  obtain a b c r where mn: "out_min s = a # b # c # r"
    using three_or_more [OF assms(1)] by blast
  obtain a' b' c' r' where mx: "out_max s = a' # b' # c' # r'"
    using three_or_more [OF assms(2)] by blast
  show ?thesis by (simp add: store_min_def store_max_def mn mx)
qed

lemma transform_bounds_degenerate:
  assumes "vertices = None \<or> sint vertex_count \<le> 0"
  shows "transform_bounds vertices vertex_count stride_bytes position_offset matrix s =
         do { s \<leftarrow> store_min 2 0 s; s \<leftarrow> store_min 1 0 s; s \<leftarrow> store_min 0 0 s;
              s \<leftarrow> store_max 2 0 s; s \<leftarrow> store_max 1 0 s; store_max 0 0 s }"
  using assms by (auto simp: transform_bounds_def)

lemma transform_bounds_regular:
  assumes "0 < sint vertex_count"
  shows "transform_bounds (Some base) vertex_count stride_bytes position_offset matrix s =
         do {
          M \<leftarrow> load_coeffs matrix;
          b \<leftarrow> tb_loop base (sint vertex_count) (sint stride_bytes) (sint position_offset)
                 M 0 zero_bounds;
          s \<leftarrow> store_min 0 (minx b) s; s \<leftarrow> store_min 1 (miny b) s; s \<leftarrow> store_min 2 (minz b) s;
          s \<leftarrow> store_max 0 (maxx b) s; s \<leftarrow> store_max 1 (maxy b) s; store_max 2 (maxz b) s
        }"
  using assms by (simp add: transform_bounds_def)

lemma stores_defined:
  "(do { s \<leftarrow> store_min i0 x0 s; s \<leftarrow> store_min i1 x1 s; s \<leftarrow> store_min i2 x2 s;
          s \<leftarrow> store_max j0 y0 s; s \<leftarrow> store_max j1 y1 s; store_max j2 y2 s } = None) \<longleftrightarrow>
   \<not> (i0 < length (out_min s) \<and> i1 < length (out_min s) \<and> i2 < length (out_min s) \<and>
      j0 < length (out_max s) \<and> j1 < length (out_max s) \<and> j2 < length (out_max s))"
  by (auto simp: store_min_def store_max_def)

lemma transform_bounds_cases:
  obtains (undefined) "\<And>s. transform_bounds vertices vertex_count stride_bytes position_offset matrix s = None"
  | (stores) x0 x1 x2 y0 y1 y2 where
      "\<And>s. transform_bounds vertices vertex_count stride_bytes position_offset matrix s =
         do { s \<leftarrow> store_min 2 x2 s; s \<leftarrow> store_min 1 x1 s; s \<leftarrow> store_min 0 x0 s;
              s \<leftarrow> store_max 2 y2 s; s \<leftarrow> store_max 1 y1 s; store_max 0 y0 s }"
  | (stores') x0 x1 x2 y0 y1 y2 where
      "\<And>s. transform_bounds vertices vertex_count stride_bytes position_offset matrix s =
         do { s \<leftarrow> store_min 0 x0 s; s \<leftarrow> store_min 1 x1 s; s \<leftarrow> store_min 2 x2 s;
              s \<leftarrow> store_max 0 y0 s; s \<leftarrow> store_max 1 y1 s; store_max 2 y2 s }"
proof (cases "vertices = None \<or> sint vertex_count \<le> 0")
  case True
  show ?thesis by (rule stores [of 0 0 0 0 0 0]) (rule transform_bounds_degenerate [OF True])
next
  case False
  then obtain base where v: "vertices = Some base" and n: "0 < sint vertex_count" by auto
  note eq = transform_bounds_regular [OF n, of base stride_bytes position_offset matrix, folded v]
  show ?thesis
  proof (cases "load_coeffs matrix")
    case None
    show ?thesis by (rule undefined) (simp add: eq None)
  next
    case (Some M)
    show ?thesis
    proof (cases "tb_loop base (sint vertex_count) (sint stride_bytes) (sint position_offset) M 0 zero_bounds")
      case None
      show ?thesis by (rule undefined) (simp add: eq Some None)
    next
      case (Some b)
      show ?thesis
        by (rule stores' [of "minx b" "miny b" "minz b" "maxx b" "maxy b" "maxz b"])
           (simp add: eq \<open>load_coeffs matrix = Some M\<close> Some)
    qed
  qed
qed


lemma short_arrays_undefined:
  assumes "\<not> (3 \<le> length (out_min s) \<and> 3 \<le> length (out_max s))"
  shows "do { s \<leftarrow> store_min 2 x2 s; s \<leftarrow> store_min 1 x1 s; s \<leftarrow> store_min 0 x0 s;
              s \<leftarrow> store_max 2 y2 s; s \<leftarrow> store_max 1 y1 s; store_max 0 y0 s } = None"
    and "do { s \<leftarrow> store_min 0 x0 s; s \<leftarrow> store_min 1 x1 s; s \<leftarrow> store_min 2 x2 s;
              s \<leftarrow> store_max 0 y0 s; s \<leftarrow> store_max 1 y1 s; store_max 2 y2 s } = None"
  using assms unfolding stores_defined by auto

lemma degenerate_result_gen:
  assumes "3 \<le> length (out_min s)" "3 \<le> length (out_max s)"
  shows "do { s \<leftarrow> store_min 2 x2 s; s \<leftarrow> store_min 1 x1 s; s \<leftarrow> store_min 0 x0 s;
          s \<leftarrow> store_max 2 y2 s; s \<leftarrow> store_max 1 y1 s; store_max 0 y0 s } =
      Some (s\<lparr> out_min := x0 # x1 # x2 # drop 3 (out_min s),
               out_max := y0 # y1 # y2 # drop 3 (out_max s),
               store_log := store_log s @ [(Out_Min, 2), (Out_Min, 1), (Out_Min, 0),
                                           (Out_Max, 2), (Out_Max, 1), (Out_Max, 0)] \<rparr>)"
proof -
  obtain a b c r where mn: "out_min s = a # b # c # r"
    using three_or_more [OF assms(1)] by blast
  obtain a' b' c' r' where mx: "out_max s = a' # b' # c' # r'"
    using three_or_more [OF assms(2)] by blast
  show ?thesis by (simp add: store_min_def store_max_def mn mx)
qed

section \<open>The degenerate case\<close>

text \<open>
  Claim C2. When \<^verbatim>\<open>vertices\<close> is null or \<^verbatim>\<open>vertex_count <= 0\<close>, the call returns with
  \<open>(0, 0, 0)\<close> in both \<^verbatim>\<open>out_min\<close> and \<^verbatim>\<open>out_max\<close>, whatever the stride, the offset and
  the matrix are. The two output arrays are assumed to have their three elements.
\<close>

theorem degenerate_writes_zero:
  assumes "vertices = None \<or> sint vertex_count \<le> 0"
    and "3 \<le> length (out_min s)" and "3 \<le> length (out_max s)"
  shows "\<exists>s'. transform_bounds vertices vertex_count stride_bytes position_offset matrix s = Some s'
           \<and> take 3 (out_min s') = [0, 0, 0] \<and> take 3 (out_max s') = [0, 0, 0]"
  unfolding transform_bounds_degenerate [OF assms(1)] degenerate_result [OF assms(2,3)]
  by simp

theorem degenerate_writes_zero_witness:
  "\<exists>s'. transform_bounds None 3 12 0 (Some identity_matrix) stale_state = Some s'
           \<and> take 3 (out_min s') = [0, 0, 0] \<and> take 3 (out_max s') = [0, 0, 0]"
  using degenerate_writes_zero [of None 3 stale_state 12 0 "Some identity_matrix"]
  by (simp add: stale_state_def)

text \<open>
  Claim C10. In the degenerate case neither the vertex buffer nor the matrix is read: the call
  gives the same result when no byte of the buffer is readable and the matrix pointer is null,
  and that call is defined, although any read through either pointer would be undefined.
\<close>

theorem degenerate_reads_nothing:
  assumes "vertices = None \<or> sint vertex_count \<le> 0"
    and "3 \<le> length (out_min s)" and "3 \<le> length (out_max s)"
  shows "transform_bounds vertices vertex_count stride_bytes position_offset matrix s =
           transform_bounds (map_option (\<lambda>_. Map.empty) vertices) vertex_count
             stride_bytes position_offset None s
         \<and> transform_bounds (map_option (\<lambda>_. Map.empty) vertices) vertex_count
             stride_bytes position_offset None s \<noteq> None"
proof -
  have d: "map_option (\<lambda>_. Map.empty :: memory) vertices = None \<or> sint vertex_count \<le> 0"
    using assms(1) by auto
  show ?thesis
    unfolding transform_bounds_degenerate [OF assms(1)] transform_bounds_degenerate [OF d]
      degenerate_result [OF assms(2,3)]
    by simp
qed

theorem degenerate_reads_nothing_witness:
  "transform_bounds (Some (mem_of_bytes [])) 0 12 0 (Some identity_matrix) stale_state =
     transform_bounds (Some Map.empty) 0 12 0 None stale_state
   \<and> transform_bounds (Some Map.empty) 0 12 0 None stale_state \<noteq> None"
  using degenerate_reads_nothing [of "Some (mem_of_bytes [])" 0 stale_state 12 0 "Some identity_matrix"]
  by (simp add: stale_state_def)

section \<open>What the result does not depend on\<close>

lemma load_elem_cong:
  assumes "length m = length m'" "m ! k = m' ! k"
  shows "load_elem (Some m) k = load_elem (Some m') k"
  using assms by (simp add: load_elem_def)

lemma load_coeffs_last_row:
  assumes "length m = length m'"
    and "\<forall>k. k \<notin> {3, 7, 11, 15} \<longrightarrow> m ! k = m' ! k"
  shows "load_coeffs (Some m) = load_coeffs (Some m')"
proof -
  have "load_elem (Some m) k = load_elem (Some m') k" if "k \<notin> {3, 7, 11, 15}" for k
    using assms that by (intro load_elem_cong) auto
  then show ?thesis unfolding load_coeffs_def by simp
qed

text \<open>
  Claim C8. The matrix entries 3, 7, 11 and 15 are never read: two calls whose matrices differ
  only there give the same result.
\<close>

theorem last_row_never_read:
  assumes "length m = length m'"
    and "\<forall>k. k \<notin> {3, 7, 11, 15} \<longrightarrow> m ! k = m' ! k"
  shows "transform_bounds vertices vertex_count stride_bytes position_offset (Some m) s =
         transform_bounds vertices vertex_count stride_bytes position_offset (Some m') s"
  unfolding transform_bounds_def load_coeffs_last_row [OF assms] ..


theorem last_row_never_read_witness:
  "transform_bounds (Some (mem_of_bytes (packed example_positions))) 3 12 0 (Some identity_matrix) stale_state =
   transform_bounds (Some (mem_of_bytes (packed example_positions))) 3 12 0
     (Some (identity_matrix[3 := 5, 7 := 6, 11 := 7, 15 := 8])) stale_state"
  using last_row_never_read [of identity_matrix "identity_matrix[3 := 5, 7 := 6, 11 := 7, 15 := 8]"
      "Some (mem_of_bytes (packed example_positions))" 3 12 0 stale_state]
  by simp

section \<open>The loop, axis by axis\<close>

lemma lo_step:
  "lo k (tb_step i t b) =
     (if i = 0 then coord k t else if flt (coord k t) (lo k b) then coord k t else lo k b)"
  by (cases t) (simp add: lo_def tb_step.simps coord.simps)

lemma hi_step:
  "hi k (tb_step i t b) =
     (if i = 0 then coord k t else if fgt (coord k t) (hi k b) then coord k t else hi k b)"
  by (cases t) (simp add: hi_def tb_step.simps coord.simps)

lemma tb_loop_None:
  "tb_loop base n stride off M i b = Some b' \<Longrightarrow> i \<le> j \<Longrightarrow> int j < n \<Longrightarrow>
   load_record base stride off (int j) \<noteq> None"
proof (induction base n stride off M i b rule: tb_loop.induct)
  case (1 base n stride off M i b)
  from "1.prems" have lt: "int i < n" by simp
  from "1.prems"(1) lt obtain p where p: "load_record base stride off (int i) = Some p"
    and rec: "tb_loop base n stride off M (i + 1) (tb_step i (transform_point M p) b) = Some b'"
    by (subst (asm) tb_loop.simps) (auto split: option.splits)
  show ?case
  proof (cases "j = i")
    case True
    then show ?thesis using p by simp
  next
    case False
    then have "i + 1 \<le> j" using "1.prems"(2) by simp
    from "1.IH" [OF lt p rec this "1.prems"(3)] show ?thesis .
  qed
qed

text \<open>The loop from record \<open>i > 0\<close> on, seen on one axis.\<close>

lemma tb_loop_scan:
  assumes "tb_loop base n stride off M i b = Some b'" "0 < i"
    and "\<And>j. i \<le> j \<Longrightarrow> int j < n \<Longrightarrow>
          map_option (\<lambda>p. coord k (transform_point M p)) (load_record base stride off (int j)) = Some (c j)"
  shows "lo k b' = scan_lo (lo k b) (map c [i..<nat n]) \<and> hi k b' = scan_hi (hi k b) (map c [i..<nat n])"
  using assms
proof (induction base n stride off M i b rule: tb_loop.induct)
  case (1 base n stride off M i b)
  show ?case
  proof (cases "int i < n")
    case False
    then have b: "b' = b" using "1.prems"(1) by (subst (asm) tb_loop.simps) simp
    have "nat n \<le> i" using False by linarith
    then have e: "[i..<nat n] = []" by simp
    show ?thesis unfolding b e by simp
  next
    case lt: True
    from "1.prems"(1) lt obtain p where p: "load_record base stride off (int i) = Some p"
      and rec: "tb_loop base n stride off M (i + 1) (tb_step i (transform_point M p) b) = Some b'"
      by (subst (asm) tb_loop.simps) (auto split: option.splits)
    have ci: "coord k (transform_point M p) = c i"
      using "1.prems"(3) [of i] lt p by auto
    have upt: "[i..<nat n] = i # [i + 1..<nat n]"
      using lt by (simp add: upt_conv_Cons)
    have "lo k b' = scan_lo (lo k (tb_step i (transform_point M p) b)) (map c [i + 1..<nat n])
        \<and> hi k b' = scan_hi (hi k (tb_step i (transform_point M p) b)) (map c [i + 1..<nat n])"
      by (rule "1.IH" [OF lt p rec]) (use "1.prems"(3) in auto)
    then show ?thesis
      using "1.prems"(2) by (simp add: upt lo_step hi_step ci)
  qed
qed

lemma tb_loop_scan0:
  assumes "tb_loop base n stride off M 0 b = Some b'" "0 < n"
    and "\<And>j. int j < n \<Longrightarrow>
          map_option (\<lambda>p. coord k (transform_point M p)) (load_record base stride off (int j)) = Some (c j)"
  shows "lo k b' = scan_lo (c 0) (map c [1..<nat n]) \<and> hi k b' = scan_hi (c 0) (map c [1..<nat n])"
proof -
  from assms(1,2) obtain p where p: "load_record base stride off (int 0) = Some p"
    and rec: "tb_loop base n stride off M (0 + 1) (tb_step 0 (transform_point M p) b) = Some b'"
    by (subst (asm) tb_loop.simps) (auto split: option.splits)
  have c0: "coord k (transform_point M p) = c 0"
    using assms(3) [of 0] assms(2) p by auto
  have "lo k b' = scan_lo (lo k (tb_step 0 (transform_point M p) b)) (map c [0 + 1..<nat n])
      \<and> hi k b' = scan_hi (hi k (tb_step 0 (transform_point M p) b)) (map c [0 + 1..<nat n])"
    by (rule tb_loop_scan [OF rec]) (use assms(3) in auto)
  then show ?thesis by (simp add: lo_step hi_step c0)
qed


subsection \<open>Order\<close>

lemma fle_refl: "\<not> is_nan a \<Longrightarrow> fle a a"
  by (simp add: fle_def)

lemma fle_trans: "fle a b \<Longrightarrow> fle b c \<Longrightarrow> fle a c"
  by (auto simp: fle_def)

lemma fle_not_nan: "fle a b \<Longrightarrow> \<not> is_nan a \<and> \<not> is_nan b"
  by (simp add: fle_def)

lemma flt_nan [simp]: "is_nan a \<Longrightarrow> \<not> flt a b" "is_nan b \<Longrightarrow> \<not> flt a b"
  by (simp_all add: flt_def)

lemma not_flt_fle: "\<not> is_nan a \<Longrightarrow> \<not> is_nan b \<Longrightarrow> \<not> flt a b \<Longrightarrow> fle b a"
  by (auto simp: flt_def fle_def)

lemma flt_fle: "flt a b \<Longrightarrow> fle a b"
  by (auto simp: flt_def fle_def)

lemma fle_antisym: "fle a b \<Longrightarrow> fle b a \<Longrightarrow> feq a b"
  by (auto simp: fle_def feq_def)

subsection \<open>The running minimum and maximum\<close>

lemma scan_lo_mem: "scan_lo m ts \<in> set (m # ts)"
  by (induction ts arbitrary: m) auto

lemma scan_hi_mem: "scan_hi m ts \<in> set (m # ts)"
  by (induction ts arbitrary: m) auto

lemma scan_lo_nan: "is_nan m \<Longrightarrow> scan_lo m ts = m"
  by (induction ts arbitrary: m) auto

lemma scan_hi_nan: "is_nan m \<Longrightarrow> scan_hi m ts = m"
  by (induction ts arbitrary: m) (auto simp: fgt_def)

lemma scan_lo_not_nan: "\<not> is_nan m \<Longrightarrow> \<not> is_nan (scan_lo m ts)"
  by (induction ts arbitrary: m) (auto simp: flt_def)

lemma scan_hi_not_nan: "\<not> is_nan m \<Longrightarrow> \<not> is_nan (scan_hi m ts)"
  by (induction ts arbitrary: m) (auto simp: flt_def fgt_def)

lemma scan_lo_below_start: "\<not> is_nan m \<Longrightarrow> fle (scan_lo m ts) m"
proof (induction ts arbitrary: m)
  case Nil
  then show ?case by (simp add: fle_refl)
next
  case (Cons t ts)
  show ?case
  proof (cases "flt t m")
    case True
    then have "\<not> is_nan t" by (simp add: flt_def)
    from Cons.IH [OF this] True show ?thesis
      by (auto intro: fle_trans flt_fle)
  next
    case False
    with Cons show ?thesis by simp
  qed
qed

lemma scan_hi_above_start: "\<not> is_nan m \<Longrightarrow> fle m (scan_hi m ts)"
proof (induction ts arbitrary: m)
  case Nil
  then show ?case by (simp add: fle_refl)
next
  case (Cons t ts)
  show ?case
  proof (cases "flt m t")
    case True
    then have "\<not> is_nan t" by (simp add: flt_def)
    from Cons.IH [OF this] True show ?thesis
      by (auto simp: fgt_def intro: fle_trans flt_fle)
  next
    case False
    with Cons show ?thesis by (simp add: fgt_def)
  qed
qed

lemma scan_lo_below:
  "\<not> is_nan m \<Longrightarrow> t \<in> set ts \<Longrightarrow> \<not> is_nan t \<Longrightarrow> fle (scan_lo m ts) t"
proof (induction ts arbitrary: m)
  case Nil
  then show ?case by simp
next
  case (Cons u ts)
  let ?m = "if flt u m then u else m"
  have nn: "\<not> is_nan ?m" using Cons.prems(1) by (auto simp: flt_def)
  show ?case
  proof (cases "t = u")
    case True
    have "fle (scan_lo ?m ts) ?m" by (rule scan_lo_below_start [OF nn])
    moreover have "fle ?m u"
      using Cons.prems(1,3) True by (auto intro: not_flt_fle fle_refl)
    ultimately show ?thesis using True by (auto intro: fle_trans)
  next
    case False
    then have "t \<in> set ts" using Cons.prems(2) by simp
    from Cons.IH [OF nn this Cons.prems(3)] show ?thesis by simp
  qed
qed

lemma scan_hi_above:
  "\<not> is_nan m \<Longrightarrow> t \<in> set ts \<Longrightarrow> \<not> is_nan t \<Longrightarrow> fle t (scan_hi m ts)"
proof (induction ts arbitrary: m)
  case Nil
  then show ?case by simp
next
  case (Cons u ts)
  let ?m = "if fgt u m then u else m"
  have nn: "\<not> is_nan ?m" using Cons.prems(1) by (auto simp: flt_def fgt_def)
  show ?case
  proof (cases "t = u")
    case True
    have "fle ?m (scan_hi ?m ts)" by (rule scan_hi_above_start [OF nn])
    moreover have "fle u ?m"
      using Cons.prems(1,3) True by (auto simp: fgt_def intro: not_flt_fle fle_refl)
    ultimately show ?thesis using True by (auto intro: fle_trans)
  next
    case False
    then have "t \<in> set ts" using Cons.prems(2) by simp
    from Cons.IH [OF nn this Cons.prems(3)] show ?thesis by simp
  qed
qed

subsection \<open>The call\<close>

lemma regular_call:
  assumes "transform_bounds (Some base) vertex_count stride_bytes position_offset matrix s = Some s'"
    and "0 < sint vertex_count"
  obtains M b where "load_coeffs matrix = Some M"
    and "tb_loop base (sint vertex_count) (sint stride_bytes) (sint position_offset) M 0 zero_bounds
           = Some b"
    and "3 \<le> length (out_min s)" and "3 \<le> length (out_max s)"
    and "s' = s\<lparr> out_min := minx b # miny b # minz b # drop 3 (out_min s),
                     out_max := maxx b # maxy b # maxz b # drop 3 (out_max s),
                     store_log := store_log s @ [(Out_Min, 0), (Out_Min, 1), (Out_Min, 2),
                                                 (Out_Max, 0), (Out_Max, 1), (Out_Max, 2)] \<rparr>"
proof -
  note eq = assms(1) [unfolded transform_bounds_regular [OF assms(2)]]
  from eq obtain M where M: "load_coeffs matrix = Some M"
    by (cases "load_coeffs matrix") auto
  from eq M obtain b where
    b: "tb_loop base (sint vertex_count) (sint stride_bytes) (sint position_offset) M 0 zero_bounds = Some b"
    by (cases "tb_loop base (sint vertex_count) (sint stride_bytes) (sint position_offset) M 0 zero_bounds")
       auto
  have st: "do { s \<leftarrow> store_min 0 (minx b) s; s \<leftarrow> store_min 1 (miny b) s;
                 s \<leftarrow> store_min 2 (minz b) s; s \<leftarrow> store_max 0 (maxx b) s;
                 s \<leftarrow> store_max 1 (maxy b) s; store_max 2 (maxz b) s } = Some s'"
    using eq by (simp only: M b Option.bind.simps)
  have len: "3 \<le> length (out_min s) \<and> 3 \<le> length (out_max s)"
  proof (rule ccontr)
    assume "\<not> ?thesis"
    from short_arrays_undefined(2) [OF this] st show False by simp
  qed
  then have l: "3 \<le> length (out_min s)" "3 \<le> length (out_max s)" by simp_all
  from st [unfolded final_result [OF l]] have "s' = s\<lparr> out_min := minx b # miny b # minz b # drop 3 (out_min s),
                     out_max := maxx b # maxy b # maxz b # drop 3 (out_max s),
                     store_log := store_log s @ [(Out_Min, 0), (Out_Min, 1), (Out_Min, 2),
                                                 (Out_Max, 0), (Out_Max, 1), (Out_Max, 2)] \<rparr>"
    by simp
  with M b l show ?thesis by (rule that)
qed

lemma call_coords_defined:
  assumes "transform_bounds (Some base) vertex_count stride_bytes position_offset matrix s = Some s'"
    and "0 < sint vertex_count" and "j < nat (sint vertex_count)"
  shows "\<exists>t. transformed_coord base stride_bytes position_offset matrix j k = Some t"
proof -
  from assms(1,2) obtain M b where M: "load_coeffs matrix = Some M"
    and b: "tb_loop base (sint vertex_count) (sint stride_bytes) (sint position_offset) M 0 zero_bounds
           = Some b"
    by (rule regular_call)
  have "load_record base (sint stride_bytes) (sint position_offset) (int j) \<noteq> None"
    by (rule tb_loop_None [OF b]) (use assms(3) in auto)
  then show ?thesis by (auto simp: transformed_coord_def M)
qed

lemma call_scan:
  assumes "transform_bounds (Some base) vertex_count stride_bytes position_offset matrix s = Some s'"
    and "0 < sint vertex_count" and "k < 3"
    and "\<And>j. j < nat (sint vertex_count) \<Longrightarrow>
           transformed_coord base stride_bytes position_offset matrix j k = Some (c j)"
  shows "out_min s' ! k = scan_lo (c 0) (map c [1..<nat (sint vertex_count)])"
    and "out_max s' ! k = scan_hi (c 0) (map c [1..<nat (sint vertex_count)])"
proof -
  from assms(1,2) obtain M b where M: "load_coeffs matrix = Some M"
    and b: "tb_loop base (sint vertex_count) (sint stride_bytes) (sint position_offset) M 0 zero_bounds
           = Some b"
    and s': "s' = s\<lparr> out_min := minx b # miny b # minz b # drop 3 (out_min s),
                     out_max := maxx b # maxy b # maxz b # drop 3 (out_max s),
                     store_log := store_log s @ [(Out_Min, 0), (Out_Min, 1), (Out_Min, 2),
                                                 (Out_Max, 0), (Out_Max, 1), (Out_Max, 2)] \<rparr>"
    by (rule regular_call)
  have c: "map_option (\<lambda>p. coord k (transform_point M p))
             (load_record base (sint stride_bytes) (sint position_offset) (int j)) = Some (c j)"
    if "int j < sint vertex_count" for j
  proof -
    from that have "j < nat (sint vertex_count)" by simp
    from assms(4) [OF this] show ?thesis
      by (auto simp: transformed_coord_def M split: Option.bind_splits)
  qed
  have sc: "lo k b = scan_lo (c 0) (map c [1..<nat (sint vertex_count)])
      \<and> hi k b = scan_hi (c 0) (map c [1..<nat (sint vertex_count)])"
    by (rule tb_loop_scan0 [OF b assms(2)]) (rule c)
  have k: "k = 0 \<or> k = 1 \<or> k = 2" using assms(3) by auto
  show "out_min s' ! k = scan_lo (c 0) (map c [1..<nat (sint vertex_count)])"
    using sc k by (auto simp: s' lo_def)
  show "out_max s' ! k = scan_hi (c 0) (map c [1..<nat (sint vertex_count)])"
    using sc k by (auto simp: s' hi_def)
qed

section \<open>Least and greatest elements\<close>

lemma upt_from_0: "0 < n \<Longrightarrow> c 0 # map c [1..<n] = map c [0..<n]"
  by (simp add: upt_conv_Cons)

lemma scan_lo_least:
  assumes "\<not> is_nan m"
  shows "least_of (scan_lo m ts) (filter (\<lambda>t. \<not> is_nan t) (m # ts))"
  unfolding least_of_def list_all_iff
proof (intro conjI ballI)
  show "scan_lo m ts \<in> set (filter (\<lambda>t. \<not> is_nan t) (m # ts))"
    using scan_lo_mem [of m ts] scan_lo_not_nan [OF assms, of ts] by auto
next
  fix t assume "t \<in> set (filter (\<lambda>t. \<not> is_nan t) (m # ts))"
  then have "t = m \<or> t \<in> set ts" and nn: "\<not> is_nan t" by (auto split: if_splits)
  then show "fle (scan_lo m ts) t"
    using scan_lo_below_start [OF assms, of ts] scan_lo_below [OF assms _ nn, of ts] by auto
qed

lemma scan_hi_greatest:
  assumes "\<not> is_nan m"
  shows "greatest_of (scan_hi m ts) (filter (\<lambda>t. \<not> is_nan t) (m # ts))"
  unfolding greatest_of_def list_all_iff
proof (intro conjI ballI)
  show "scan_hi m ts \<in> set (filter (\<lambda>t. \<not> is_nan t) (m # ts))"
    using scan_hi_mem [of m ts] scan_hi_not_nan [OF assms, of ts] by auto
next
  fix t assume "t \<in> set (filter (\<lambda>t. \<not> is_nan t) (m # ts))"
  then have "t = m \<or> t \<in> set ts" and nn: "\<not> is_nan t" by (auto split: if_splits)
  then show "fle t (scan_hi m ts)"
    using scan_hi_above_start [OF assms, of ts] scan_hi_above [OF assms _ nn, of ts] by auto
qed

section \<open>Reading records from a buffer\<close>

lemma concat_uniform_length:
  "\<forall>r\<in>set recs. length r = L \<Longrightarrow> length (concat recs) = length recs * L"
  by (induction recs) auto

lemma concat_uniform_nth:
  "\<forall>r\<in>set recs. length r = L \<Longrightarrow> j < length recs \<Longrightarrow> q < L \<Longrightarrow>
   concat recs ! (j * L + q) = recs ! j ! q"
proof (induction recs arbitrary: j)
  case Nil
  then show ?case by simp
next
  case (Cons r recs)
  show ?case
  proof (cases j)
    case 0
    then show ?thesis using Cons.prems by (simp add: nth_append)
  next
    case (Suc j')
    then have "concat (r # recs) ! (j * L + q) = concat recs ! (j' * L + q)"
      using Cons.prems by (simp add: nth_append)
    also have "\<dots> = recs ! j' ! q"
      using Cons.prems Suc by (intro Cons.IH) auto
    finally show ?thesis using Suc by simp
  qed
qed

lemma mem_concat:
  assumes "\<forall>r\<in>set recs. length r = L" "j < length recs" "q < L"
  shows "mem_of_bytes (concat recs) (int (j * L + q)) = Some (recs ! j ! q)"
proof -
  have "j * L + q < length recs * L"
  proof -
    have "j * L + q < j * L + L" using assms(3) by simp
    also have "\<dots> = (j + 1) * L" by simp
    also have "\<dots> \<le> length recs * L" using assms(2) by (intro mult_le_mono1) simp
    finally show ?thesis .
  qed
  then show ?thesis
    using concat_uniform_nth [OF assms] concat_uniform_length [OF assms(1)]
    by (simp add: mem_of_bytes_def del: of_nat_add of_nat_mult)
qed

lemma load_f32_concat:
  assumes "\<forall>r\<in>set recs. length r = L" "j < length recs" "q + 4 \<le> L"
  shows "load_f32 (mem_of_bytes (concat recs)) (int (j * L + q)) = Some (f32_at (recs ! j) q)"
proof -
  have m: "mem_of_bytes (concat recs) (int (j * L + q) + int d) = Some (recs ! j ! (q + d))"
    if "d < 4" for d
    using mem_concat [OF assms(1,2), of "q + d"] that assms(3)
    by (simp add: add.assoc)
  show ?thesis
    using m [of 0] m [of 1] m [of 2] m [of 3]
    by (simp add: load_f32_def f32_at_def)
qed

lemma load_pos_concat:
  assumes "\<forall>r\<in>set recs. length r = L" "j < length recs" "a + 12 \<le> L"
  shows "load_pos (mem_of_bytes (concat recs)) (int (j * L + a)) = Some (pos_of_record a (recs ! j))"
proof -
  have m: "load_f32 (mem_of_bytes (concat recs)) (int (j * L + a) + int d) = Some (f32_at (recs ! j) (a + d))"
    if "d \<le> 8" for d
    using load_f32_concat [OF assms(1,2), of "a + d"] that assms(3)
    by (simp add: add.assoc)
  show ?thesis
    using m [of 0] m [of 4] m [of 8]
    by (simp add: load_pos_def pos_of_record_def)
qed

lemma load_record_concat:
  assumes "\<forall>r\<in>set recs. length r = L" "j < length recs" "a + 12 \<le> L"
    and "j * L \<le> 2147483647"
  shows "load_record (mem_of_bytes (concat recs)) (int L) (int a) (int j)
         = Some (pos_of_record a (recs ! j))"
proof -
  have "int (j * L) \<le> int 2147483647"
    using assms(4) by (simp only: of_nat_le_iff)
  then have "int j * int L \<le> 2147483647" by simp
  moreover have "- 2147483648 \<le> int j * int L"
  proof -
    have "0 \<le> int j * int L" by simp
    then show ?thesis by linarith
  qed
  ultimately have "record_offset (int j) (int L) (int a) = Some (int (j * L + a))"
    by (simp add: record_offset_def)
  then show ?thesis
    using load_pos_concat [OF assms(1,2,3)] by (simp add: load_record_def)
qed

text \<open>Out of the buffer.\<close>

lemma mem_concat_None:
  assumes "\<forall>r\<in>set recs. length r = L" "length recs * L \<le> q"
  shows "mem_of_bytes (concat recs) (int q) = None"
  using assms concat_uniform_length [OF assms(1)]
  by (simp add: mem_of_bytes_def del: of_nat_add of_nat_mult)

lemma f32_bytes_roundtrip:
  "f32_of_bytes (bytes_of_f32 w ! 0) (bytes_of_f32 w ! 1) (bytes_of_f32 w ! 2) (bytes_of_f32 w ! 3) = w"
proof -
  define n where "n = unat w"
  have n: "n < 4294967296" using unsigned_less [of w, where 'a = nat] by (simp add: n_def)
  have b: "unat (word_of_nat (x mod 256) :: byte) = x mod 256" for x
    by (simp add: unat_of_nat)
  have b3: "unat (word_of_nat (n div 16777216) :: byte) = n div 16777216"
    using n by (simp add: unat_of_nat)
  define a where "a = n div 256"
  define b where "b = a div 256"
  define c where "c = b div 256"
  have d2: "n div 65536 = b" unfolding b_def a_def by (simp add: div_mult2_eq)
  have d3: "n div 16777216 = c" unfolding c_def b_def a_def by (simp add: div_mult2_eq)
  have "n mod 256 + 256 * a = n" "a mod 256 + 256 * b = a" "b mod 256 + 256 * c = b"
    unfolding a_def b_def c_def by simp_all
  then have "n mod 256 + 256 * (a mod 256) + 65536 * (b mod 256) + 16777216 * c = n"
    by linarith
  then have "n mod 256 + 256 * (n div 256 mod 256) + 65536 * (n div 65536 mod 256)
          + 16777216 * (n div 16777216) = n"
    unfolding d2 d3 a_def [symmetric] .
  then have id: "word_of_nat (n mod 256 + 256 * (n div 256 mod 256) + 65536 * (n div 65536 mod 256)
          + 16777216 * (n div 16777216)) = w"
    by (simp only: n_def of_nat_unat ucast_id)
  have e: "bytes_of_f32 w ! 0 = word_of_nat (n mod 256)"
    "bytes_of_f32 w ! 1 = word_of_nat (n div 256 mod 256)"
    "bytes_of_f32 w ! 2 = word_of_nat (n div 65536 mod 256)"
    "bytes_of_f32 w ! 3 = word_of_nat (n div 16777216)"
    by (simp_all add: bytes_of_f32_def n_def)
  show ?thesis
    by (simp only: f32_of_bytes_def e b b3 id)
qed

section \<open>Calls that agree on what they read\<close>

lemma tb_loop_cong:
  assumes "\<And>j. i \<le> j \<Longrightarrow> int j < n \<Longrightarrow>
             load_record base stride off (int j) = load_record base' stride' off' (int j)"
  shows "tb_loop base n stride off M i b = tb_loop base' n stride' off' M i b"
  using assms
proof (induction base n stride off M i b rule: tb_loop.induct)
  case (1 base n stride off M i b)
  show ?case
  proof (cases "int i < n")
    case False
    then show ?thesis by (simp add: tb_loop.simps [of _ _ _ _ _ i])
  next
    case True
    have l: "load_record base stride off (int i) = load_record base' stride' off' (int i)"
      using "1.prems" [of i] True by simp
    show ?thesis
    proof (cases "load_record base stride off (int i)")
      case None
      then show ?thesis using l True by (simp add: tb_loop.simps [of _ _ _ _ _ i])
    next
      case (Some p)
      have "tb_loop base n stride off M (i + 1) (tb_step i (transform_point M p) b)
          = tb_loop base' n stride' off' M (i + 1) (tb_step i (transform_point M p) b)"
        by (rule "1.IH" [OF True Some]) (use "1.prems" in auto)
      moreover have "load_record base' stride' off' (int i) = Some p"
        using l Some by simp
      ultimately show ?thesis
        using True Some
        by (simp only: tb_loop.simps [of _ _ _ _ _ i] if_True option.case)
    qed
  qed
qed

lemma tb_loop_defined:
  assumes "\<And>j. i \<le> j \<Longrightarrow> int j < n \<Longrightarrow> load_record base stride off (int j) \<noteq> None"
  shows "\<exists>b'. tb_loop base n stride off M i b = Some b'"
  using assms
proof (induction base n stride off M i b rule: tb_loop.induct)
  case (1 base n stride off M i b)
  show ?case
  proof (cases "int i < n")
    case False
    then show ?thesis by (simp add: tb_loop.simps [of _ _ _ _ _ i])
  next
    case True
    then obtain p where p: "load_record base stride off (int i) = Some p"
      using "1.prems" [of i] by auto
    have "\<exists>b'. tb_loop base n stride off M (i + 1) (tb_step i (transform_point M p) b) = Some b'"
      by (rule "1.IH" [OF True p]) (use "1.prems" in auto)
    then show ?thesis
      using True p by (simp add: tb_loop.simps [of _ _ _ _ _ i])
  qed
qed

lemma call_defined:
  assumes "0 < sint vertex_count" and "load_coeffs matrix = Some M"
    and "\<And>j. j < nat (sint vertex_count) \<Longrightarrow>
           load_record base (sint stride_bytes) (sint position_offset) (int j) \<noteq> None"
    and "3 \<le> length (out_min s)" and "3 \<le> length (out_max s)"
  shows "\<exists>s'. transform_bounds (Some base) vertex_count stride_bytes position_offset matrix s = Some s'"
proof -
  have "\<exists>b. tb_loop base (sint vertex_count) (sint stride_bytes) (sint position_offset) M 0 zero_bounds
           = Some b"
    by (rule tb_loop_defined) (use assms(3) in auto)
  then obtain b where
    b: "tb_loop base (sint vertex_count) (sint stride_bytes) (sint position_offset) M 0 zero_bounds = Some b"
    by blast
  show ?thesis
    by (simp only: transform_bounds_regular [OF assms(1)] assms(2) b Option.bind.simps
          final_result [OF assms(4,5)]) blast
qed

lemma call_cong:
  assumes "\<And>j. j < nat (sint vertex_count) \<Longrightarrow>
             load_record base (sint stride_bytes) (sint position_offset) (int j)
             = load_record base' (sint stride_bytes') (sint position_offset') (int j)"
  shows "transform_bounds (Some base) vertex_count stride_bytes position_offset matrix s
       = transform_bounds (Some base') vertex_count stride_bytes' position_offset' matrix s"
proof (cases "0 < sint vertex_count")
  case False
  then have d: "Some base = None \<or> sint vertex_count \<le> 0" "Some base' = None \<or> sint vertex_count \<le> 0"
    by simp_all
  show ?thesis
    by (simp only: transform_bounds_degenerate [OF d(1)] transform_bounds_degenerate [OF d(2)])
next
  case True
  have "tb_loop base (sint vertex_count) (sint stride_bytes) (sint position_offset) M 0 zero_bounds
      = tb_loop base' (sint vertex_count) (sint stride_bytes') (sint position_offset') M 0 zero_bounds"
    for M
    by (rule tb_loop_cong) (use assms in auto)
  then show ?thesis
    by (simp only: transform_bounds_regular [OF True])
qed

lemma call_no_overflow:
  assumes "transform_bounds (Some base) vertex_count stride_bytes position_offset matrix s = Some s'"
    and "0 < sint vertex_count" and "j < nat (sint vertex_count)"
  shows "int j * sint stride_bytes \<le> 2147483647"
    and "load_record base (sint stride_bytes) (sint position_offset) (int j) \<noteq> None"
proof -
  from assms(1,2) obtain M b where M: "load_coeffs matrix = Some M"
    and b: "tb_loop base (sint vertex_count) (sint stride_bytes) (sint position_offset) M 0 zero_bounds
           = Some b"
    by (rule regular_call)
  show l: "load_record base (sint stride_bytes) (sint position_offset) (int j) \<noteq> None"
    by (rule tb_loop_None [OF b]) (use assms(3) in auto)
  then show "int j * sint stride_bytes \<le> 2147483647"
    by (auto simp: load_record_def record_offset_def split: if_splits)
qed

section \<open>Evaluating a call\<close>

lemma length_bytes_of_f32 [simp]: "length (bytes_of_f32 w) = 4"
  by (simp add: bytes_of_f32_def)

lemma length_bytes_of_pos [simp]: "length (bytes_of_pos p) = 12"
  by (cases p) (simp add: bytes_of_pos_def)

lemma f32_at_bytes: "f32_at (pre @ bytes_of_f32 w @ post) (length pre) = w"
proof -
  have d: "(pre @ bytes_of_f32 w @ post) ! (length pre + d) = bytes_of_f32 w ! d" if "d < 4" for d
    using that by (simp add: nth_append)
  have e: "(pre @ bytes_of_f32 w @ post) ! length pre = bytes_of_f32 w ! 0"
    "(pre @ bytes_of_f32 w @ post) ! (length pre + 1) = bytes_of_f32 w ! 1"
    "(pre @ bytes_of_f32 w @ post) ! (length pre + 2) = bytes_of_f32 w ! 2"
    "(pre @ bytes_of_f32 w @ post) ! (length pre + 3) = bytes_of_f32 w ! 3"
    using d [of 0] d [of 1] d [of 2] d [of 3] by simp_all
  show ?thesis
    by (simp only: f32_at_def e f32_bytes_roundtrip)
qed

lemma pos_of_record_bytes: "pos_of_record (length pre) (pre @ bytes_of_pos p @ post) = p"
proof (cases p)
  case (fields x y z)
  let ?r = "pre @ bytes_of_pos (x, y, z) @ post"
  have x: "f32_at ?r (length pre) = x"
    using f32_at_bytes [of pre x "bytes_of_f32 y @ bytes_of_f32 z @ post"]
    by (simp add: bytes_of_pos_def)
  have y: "f32_at ?r (length pre + 4) = y"
    using f32_at_bytes [of "pre @ bytes_of_f32 x" y "bytes_of_f32 z @ post"]
    by (simp add: bytes_of_pos_def)
  have z: "f32_at ?r (length pre + 8) = z"
    using f32_at_bytes [of "pre @ bytes_of_f32 x @ bytes_of_f32 y" z post]
    by (simp add: bytes_of_pos_def)
  show ?thesis unfolding fields pos_of_record_def x y z ..
qed

lemma load_record_packed:
  assumes "j < length ps" "j * 12 \<le> 2147483647"
  shows "load_record (mem_of_bytes (packed ps)) 12 0 (int j) = Some (ps ! j)"
proof -
  have "load_record (mem_of_bytes (concat (map bytes_of_pos ps))) (int 12) (int 0) (int j)
        = Some (pos_of_record 0 (map bytes_of_pos ps ! j))"
    by (rule load_record_concat) (use assms in auto)
  moreover have "pos_of_record 0 (bytes_of_pos (ps ! j)) = ps ! j"
    using pos_of_record_bytes [of "[]" "ps ! j" "[]"] by simp
  ultimately show ?thesis using assms(1) by (simp add: packed_def)
qed

lemma call_result:
  assumes "0 < sint vertex_count" and "load_coeffs matrix = Some M"
    and "\<And>j. j < nat (sint vertex_count) \<Longrightarrow>
           load_record base (sint stride_bytes) (sint position_offset) (int j) = Some (p j)"
    and "3 \<le> length (out_min s)" and "3 \<le> length (out_max s)"
  shows "transform_bounds (Some base) vertex_count stride_bytes position_offset matrix s =
     Some (s\<lparr> out_min := map (\<lambda>k. scan_lo (coord k (transform_point M (p 0)))
                              (map (\<lambda>j. coord k (transform_point M (p j))) [1..<nat (sint vertex_count)]))
                          [0, 1, 2] @ drop 3 (out_min s),
               out_max := map (\<lambda>k. scan_hi (coord k (transform_point M (p 0)))
                              (map (\<lambda>j. coord k (transform_point M (p j))) [1..<nat (sint vertex_count)]))
                          [0, 1, 2] @ drop 3 (out_max s),
               store_log := store_log s @ [(Out_Min, 0), (Out_Min, 1), (Out_Min, 2),
                                           (Out_Max, 0), (Out_Max, 1), (Out_Max, 2)] \<rparr>)"
proof -
  have "\<exists>s'. transform_bounds (Some base) vertex_count stride_bytes position_offset matrix s = Some s'"
    by (rule call_defined [OF assms(1,2) _ assms(4,5)]) (use assms(3) in auto)
  then obtain s' where
    call: "transform_bounds (Some base) vertex_count stride_bytes position_offset matrix s = Some s'"
    by blast
  from call assms(1) obtain M' b where M': "load_coeffs matrix = Some M'"
    and b: "tb_loop base (sint vertex_count) (sint stride_bytes) (sint position_offset) M' 0 zero_bounds
           = Some b"
    and s': "s' = s\<lparr> out_min := minx b # miny b # minz b # drop 3 (out_min s),
                     out_max := maxx b # maxy b # maxz b # drop 3 (out_max s),
                     store_log := store_log s @ [(Out_Min, 0), (Out_Min, 1), (Out_Min, 2),
                                                 (Out_Max, 0), (Out_Max, 1), (Out_Max, 2)] \<rparr>"
    by (rule regular_call)
  have MM: "M' = M" using M' assms(2) by simp
  have sc: "lo k b = scan_lo (coord k (transform_point M (p 0)))
                       (map (\<lambda>j. coord k (transform_point M (p j))) [1..<nat (sint vertex_count)])
          \<and> hi k b = scan_hi (coord k (transform_point M (p 0)))
                       (map (\<lambda>j. coord k (transform_point M (p j))) [1..<nat (sint vertex_count)])"
    for k
    by (rule tb_loop_scan0 [OF b [unfolded MM] assms(1)]) (use assms(3) in auto)
  have "minx b = lo 0 b" "miny b = lo 1 b" "minz b = lo 2 b"
    "maxx b = hi 0 b" "maxy b = hi 1 b" "maxz b = hi 2 b"
    by (simp_all add: lo_def hi_def)
  then show ?thesis
    unfolding call s' by (simp add: sc)
qed

lemmas f32_eval = fadd_def fmul_def is_nan_def is_inf_def f32_sign_def f32_mag_def inf_mag_def
  mk_f32_def f32_nan_def f32_units_def mag_units_def round_mag_def round_half_even_def bitlen.simps Let_def
  flt_def fgt_def fle_def feq_def f32_key_def f32_one_def

lemma identity_coeffs: "load_coeffs (Some identity_matrix) = Some identity_affine"
  by (simp add: load_coeffs_def load_elem_def identity_matrix_def identity_affine_def)

lemma map_nth_tl: "map (\<lambda>j. f (ps ! j)) [1..<length ps] = map f (tl ps)"
proof (cases ps)
  case Nil
  then show ?thesis by simp
next
  case (Cons p qs)
  have "map (\<lambda>j. f ((p # qs) ! j)) [Suc 0..<Suc (length qs)] = map (\<lambda>j. f (qs ! j)) [0..<length qs]"
    unfolding map_Suc_upt [symmetric] by (simp del: upt_Suc)
  also have "\<dots> = map f (map (\<lambda>j. qs ! j) [0..<length qs])" by simp
  also have "\<dots> = map f qs" by (simp only: map_nth)
  finally show ?thesis using Cons by simp
qed

lemma packed_call:
  assumes "sint vertex_count = int (length ps)" and "ps \<noteq> []"
    and "length ps * 12 \<le> 2147483647"
    and "load_coeffs matrix = Some M"
    and "3 \<le> length (out_min s)" and "3 \<le> length (out_max s)"
    and "map (transform_point M) ps = t0 # ts"
  shows "transform_bounds (Some (mem_of_bytes (packed ps))) vertex_count 12 0 matrix s =
     Some (s\<lparr> out_min := [scan_lo (coord 0 t0) (map (coord 0) ts),
                            scan_lo (coord 1 t0) (map (coord 1) ts),
                            scan_lo (coord 2 t0) (map (coord 2) ts)] @ drop 3 (out_min s),
               out_max := [scan_hi (coord 0 t0) (map (coord 0) ts),
                            scan_hi (coord 1 t0) (map (coord 1) ts),
                            scan_hi (coord 2 t0) (map (coord 2) ts)] @ drop 3 (out_max s),
               store_log := store_log s @ [(Out_Min, 0), (Out_Min, 1), (Out_Min, 2),
                                           (Out_Max, 0), (Out_Max, 1), (Out_Max, 2)] \<rparr>)"
proof -
  have n: "0 < sint vertex_count" "nat (sint vertex_count) = length ps"
    using assms(1,2) by simp_all
  have ld: "load_record (mem_of_bytes (packed ps)) (sint (12 :: c_int)) (sint (0 :: c_int)) (int j)
            = Some (ps ! j)" if "j < nat (sint vertex_count)" for j
  proof -
    have "j < length ps" using that n by simp
    moreover from this have "j * 12 \<le> 2147483647" using assms(3) by simp
    ultimately show ?thesis using load_record_packed [of j ps] by simp
  qed
  have t0: "transform_point M (ps ! 0) = t0"
    using assms(2,7) by (cases ps) auto
  have ts: "map (\<lambda>j. coord k (transform_point M (ps ! j))) [Suc 0..<length ps] = map (coord k) ts" for k
    using map_nth_tl [of "\<lambda>p. coord k (transform_point M p)" ps] assms(2,7)
    by (cases ps) auto
  note r = call_result [OF n(1) assms(4) ld assms(5,6), unfolded n(2)]
  show ?thesis
    by (simp add: r t0 ts)
qed

lemma packed_coord:
  assumes "j < length ps" and "length ps * 12 \<le> 2147483647" and "load_coeffs matrix = Some M"
  shows "transformed_coord (mem_of_bytes (packed ps)) 12 0 matrix j k
         = Some (coord k (transform_point M (ps ! j)))"
proof -
  have "j * 12 \<le> 2147483647" using assms(1,2) by simp
  from load_record_packed [OF assms(1) this] show ?thesis
    by (simp add: transformed_coord_def assms(3))
qed

lemma example_transformed:
  "map (transform_point identity_affine) example_positions = example_positions"
  by (simp add: example_positions_def identity_affine_def transform_point.simps affine_row_def f32_eval)

lemma nan_transformed:
  "map (transform_point identity_affine) nan_positions = [(f32_nan, f32_nan, f32_nan), (f32_one, 0, 0)]"
  by (simp add: nan_positions_def identity_affine_def transform_point.simps affine_row_def f32_eval)

lemma example_call:
  "transform_bounds (Some (mem_of_bytes (packed example_positions))) 3 12 0
     (Some identity_matrix) stale_state =
   Some \<lparr> out_min = [3212836864, 0, 0], out_max = [1065353216, 1084227584, 1077936128],
          store_log = [(Out_Min, 0), (Out_Min, 1), (Out_Min, 2),
                       (Out_Max, 0), (Out_Max, 1), (Out_Max, 2)] \<rparr>"
proof -
  have t: "map (transform_point identity_affine) example_positions
           = (0, 0, 0) # [(1065353216, 1073741824, 1077936128), (3212836864, 1084227584, 0)]"
    unfolding example_transformed by (simp add: example_positions_def)
  show ?thesis
    by (subst packed_call [OF _ _ _ identity_coeffs _ _ t])
       (simp_all add: example_positions_def stale_state_def coord.simps f32_eval)
qed

lemma nan_call:
  "transform_bounds (Some (mem_of_bytes (packed nan_positions))) 2 12 0
     (Some identity_matrix) stale_state =
   Some \<lparr> out_min = [f32_nan, f32_nan, f32_nan], out_max = [f32_nan, f32_nan, f32_nan],
          store_log = [(Out_Min, 0), (Out_Min, 1), (Out_Min, 2),
                       (Out_Max, 0), (Out_Max, 1), (Out_Max, 2)] \<rparr>"
proof -
  have t: "map (transform_point identity_affine) nan_positions
           = (f32_nan, f32_nan, f32_nan) # [(f32_one, 0, 0)]"
    by (rule nan_transformed)
  show ?thesis
    by (subst packed_call [OF _ _ _ identity_coeffs _ _ t])
       (simp_all add: nan_positions_def stale_state_def coord.simps flt_def fgt_def
          is_nan_def f32_mag_def inf_mag_def f32_nan_def)
qed

section \<open>The example calls\<close>

lemma less_2_cases: "j < (2::nat) \<Longrightarrow> j = 0 \<or> j = 1"
  by arith

lemma less_3_cases: "j < (3::nat) \<Longrightarrow> j = 0 \<or> j = 1 \<or> j = 2"
  by arith

lemma all_less_2: "(\<forall>j<2::nat. P j) \<longleftrightarrow> P 0 \<and> P 1"
  using less_2_cases by auto

lemma all_less_3: "(\<forall>j<3::nat. P j) \<longleftrightarrow> P 0 \<and> P 1 \<and> P 2"
  using less_3_cases by auto

lemma example_coord:
  "j < 3 \<Longrightarrow> transformed_coord (mem_of_bytes (packed example_positions)) 12 0
     (Some identity_matrix) j k = Some (coord k (example_positions ! j))"
proof -
  assume j: "j < 3"
  have "transform_point identity_affine (example_positions ! j)
        = map (transform_point identity_affine) example_positions ! j"
    by (rule nth_map [symmetric]) (use j in \<open>simp add: example_positions_def\<close>)
  then have "transform_point identity_affine (example_positions ! j) = example_positions ! j"
    by (simp only: example_transformed)
  then show ?thesis
    using packed_coord [of j example_positions "Some identity_matrix" identity_affine k] j
    by (simp add: identity_coeffs example_positions_def)
qed

lemma nan_coord:
  "j < 2 \<Longrightarrow> transformed_coord (mem_of_bytes (packed nan_positions)) 12 0
     (Some identity_matrix) j k = Some (coord k ([(f32_nan, f32_nan, f32_nan), (f32_one, 0, 0)] ! j))"
proof -
  assume j: "j < 2"
  have "transform_point identity_affine (nan_positions ! j)
        = map (transform_point identity_affine) nan_positions ! j"
    by (rule nth_map [symmetric]) (use j in \<open>simp add: nan_positions_def\<close>)
  then have "transform_point identity_affine (nan_positions ! j)
        = [(f32_nan, f32_nan, f32_nan), (f32_one, 0, 0)] ! j"
    by (simp only: nan_transformed)
  then show ?thesis
    using packed_coord [of j nan_positions "Some identity_matrix" identity_affine k] j
    by (simp add: identity_coeffs nan_positions_def)
qed

section \<open>The bounds of a regular call\<close>

text \<open>
  Claim C1, amended. For a call with a non-null buffer and \<^verbatim>\<open>vertex_count > 0\<close> that is
  defined, and an axis \<open>k\<close> on which the transformed coordinate of record 0 is not a NaN:
  \<^verbatim>\<open>out_min[k]\<close> is a least and \<^verbatim>\<open>out_max[k]\<close> a greatest element, for the IEEE order, of
  the transformed \<open>k\<close>-coordinates of all records that are not NaN (a NaN in a later record is
  skipped; when no coordinate is a NaN these are the minimum and maximum over all records).
  For the vertices \<open>(0,0,0)\<close>, \<open>(1,2,3)\<close>, \<open>(-1,5,0)\<close> and the identity matrix the
  result is \<open>out_min = (-1,0,0)\<close>, \<open>out_max = (1,5,3)\<close>.
\<close>

theorem bounds_are_extrema:
  assumes "transform_bounds (Some base) vertex_count stride_bytes position_offset matrix s = Some s'"
    and "0 < sint vertex_count" and "k < 3"
    and "\<forall>j < nat (sint vertex_count).
           transformed_coord base stride_bytes position_offset matrix j k = Some (c j)"
    and "\<not> is_nan (c 0)"
  shows "least_of (out_min s' ! k) (filter (\<lambda>t. \<not> is_nan t) (map c [0..<nat (sint vertex_count)]))
       \<and> greatest_of (out_max s' ! k) (filter (\<lambda>t. \<not> is_nan t) (map c [0..<nat (sint vertex_count)]))
       \<and> transform_bounds (Some (mem_of_bytes (packed example_positions))) 3 12 0
            (Some identity_matrix) stale_state =
           Some \<lparr> out_min = [3212836864, 0, 0], out_max = [1065353216, 1084227584, 1077936128],
                  store_log = [(Out_Min, 0), (Out_Min, 1), (Out_Min, 2),
                               (Out_Max, 0), (Out_Max, 1), (Out_Max, 2)] \<rparr>"
proof -
  have n: "0 < nat (sint vertex_count)" using assms(2) by simp
  have c: "transformed_coord base stride_bytes position_offset matrix j k = Some (c j)"
    if "j < nat (sint vertex_count)" for j using assms(4) that by simp
  note sc = call_scan [OF assms(1,2,3) c]
  have e: "map c [0..<nat (sint vertex_count)] = c 0 # map c [1..<nat (sint vertex_count)]"
    using n by (simp add: upt_conv_Cons)
  have "least_of (scan_lo (c 0) (map c [1..<nat (sint vertex_count)]))
          (filter (\<lambda>t. \<not> is_nan t) (c 0 # map c [1..<nat (sint vertex_count)]))"
    by (rule scan_lo_least [OF assms(5)])
  moreover have "greatest_of (scan_hi (c 0) (map c [1..<nat (sint vertex_count)]))
          (filter (\<lambda>t. \<not> is_nan t) (c 0 # map c [1..<nat (sint vertex_count)]))"
    by (rule scan_hi_greatest [OF assms(5)])
  ultimately show ?thesis
    by (simp only: e sc example_call simp_thms)
qed

theorem bounds_are_extrema_witness:
  "least_of 0 [0, 1073741824, 1084227584] \<and> greatest_of 1084227584 [0, 1073741824, 1084227584]"
proof -
  let ?c = "\<lambda>j. [0, 1073741824, 1084227584 :: f32] ! j"
  have h2: "0 < sint (3 :: c_int)" by simp
  have h3: "(1 :: nat) < 3" by simp
  have h4: "\<forall>j < nat (sint (3 :: c_int)).
      transformed_coord (mem_of_bytes (packed example_positions)) 12 0 (Some identity_matrix) j 1
        = Some (?c j)"
    apply (simp add: all_less_3 example_coord)
    apply (simp add: example_positions_def coord.simps)
    done
  have h5: "\<not> is_nan (?c 0)"
    by (simp add: is_nan_def f32_mag_def inf_mag_def)
  have nn: "filter (\<lambda>t. \<not> is_nan t) [0, 1073741824, 1084227584] = [0, 1073741824, 1084227584]"
    by (simp add: is_nan_def f32_mag_def inf_mag_def)
  have u: "map ?c [0..<nat (sint (3 :: c_int))] = [0, 1073741824, 1084227584]"
    by (simp add: upt_conv_Cons)
  from bounds_are_extrema [OF example_call h2 h3 h4 h5]
  show ?thesis
    by (simp only: u nn tb_state.simps nth_Cons_Suc nth_Cons_0 One_nat_def)
qed

text \<open>
  The claim as stated fails when the first record transforms to a NaN: for the vertices
  \<open>(NaN,0,0)\<close>, \<open>(1,0,0)\<close> and the identity matrix both corners are NaN, which is neither
  below nor above the x-coordinate 1 of the second record.
\<close>

theorem bounds_are_extrema_counterexample:
  "transform_bounds (Some (mem_of_bytes (packed nan_positions))) 2 12 0
     (Some identity_matrix) stale_state =
   Some \<lparr> out_min = [f32_nan, f32_nan, f32_nan], out_max = [f32_nan, f32_nan, f32_nan],
          store_log = [(Out_Min, 0), (Out_Min, 1), (Out_Min, 2),
                       (Out_Max, 0), (Out_Max, 1), (Out_Max, 2)] \<rparr>
   \<and> transformed_coord (mem_of_bytes (packed nan_positions)) 12 0 (Some identity_matrix) 0 0
       = Some f32_nan
   \<and> transformed_coord (mem_of_bytes (packed nan_positions)) 12 0 (Some identity_matrix) 1 0
       = Some f32_one
   \<and> \<not> least_of f32_nan [f32_nan, f32_one] \<and> \<not> greatest_of f32_nan [f32_nan, f32_one]"
  by (simp add: nan_call nan_coord coord.simps least_of_def greatest_of_def fle_def
        is_nan_def f32_mag_def inf_mag_def f32_nan_def)

text \<open>
  Claim C3, amended. For a defined call with a non-null buffer and \<^verbatim>\<open>vertex_count > 0\<close>, a
  record \<open>j\<close> and an axis \<open>k\<close>: when neither the transformed \<open>k\<close>-coordinate of record 0
  nor that of record \<open>j\<close> is a NaN, the latter lies between \<^verbatim>\<open>out_min[k]\<close> and
  \<^verbatim>\<open>out_max[k]\<close>.
\<close>

theorem containment:
  assumes "transform_bounds (Some base) vertex_count stride_bytes position_offset matrix s = Some s'"
    and "0 < sint vertex_count" and "k < 3" and "j < nat (sint vertex_count)"
    and "transformed_coord base stride_bytes position_offset matrix 0 k = Some t0"
    and "transformed_coord base stride_bytes position_offset matrix j k = Some t"
    and "\<not> is_nan t0" and "\<not> is_nan t"
  shows "fle (out_min s' ! k) t \<and> fle t (out_max s' ! k)"
proof -
  define c where "c i = the (transformed_coord base stride_bytes position_offset matrix i k)" for i
  have c: "transformed_coord base stride_bytes position_offset matrix i k = Some (c i)"
    if "i < nat (sint vertex_count)" for i
    using call_coords_defined [OF assms(1,2) that, of k] by (auto simp: c_def)
  note sc = call_scan [OF assms(1,2,3) c]
  have c0: "c 0 = t0" and cj: "c j = t" using assms(5,6) by (simp_all add: c_def)
  have mem: "j = 0 \<or> t \<in> set (map c [1..<nat (sint vertex_count)])"
    using assms(4) cj by (cases "j = 0") auto
  have nn: "\<not> is_nan (c 0)" using assms(7) c0 by simp
  let ?ts = "map c [1..<nat (sint vertex_count)]"
  have "fle (scan_lo (c 0) ?ts) t \<and> fle t (scan_hi (c 0) ?ts)"
  proof (cases "j = 0")
    case True
    then have "t = c 0" using cj by simp
    then show ?thesis
      using scan_lo_below_start [OF nn, of ?ts] scan_hi_above_start [OF nn, of ?ts] by simp
  next
    case False
    then have "t \<in> set ?ts" using mem by simp
    then show ?thesis
      using scan_lo_below [OF nn _ assms(8), of ?ts] scan_hi_above [OF nn _ assms(8), of ?ts]
      by simp
  qed
  then show ?thesis by (simp only: sc)
qed

theorem containment_witness:
  "fle 3212836864 3212836864 \<and> fle 3212836864 1065353216"
proof -
  have h2: "0 < sint (3 :: c_int)" by simp
  have h3: "(0 :: nat) < 3" by simp
  have h4: "(2 :: nat) < nat (sint (3 :: c_int))" by simp
  have h5: "transformed_coord (mem_of_bytes (packed example_positions)) 12 0
              (Some identity_matrix) 0 0 = Some 0"
    by (simp add: example_coord) (simp add: example_positions_def coord.simps)
  have h6: "transformed_coord (mem_of_bytes (packed example_positions)) 12 0
              (Some identity_matrix) 2 0 = Some 3212836864"
    by (simp add: example_coord) (simp add: example_positions_def coord.simps)
  have h7: "\<not> is_nan 0" and h8: "\<not> is_nan 3212836864"
    by (simp_all add: is_nan_def f32_mag_def inf_mag_def)
  from containment [OF example_call h2 h3 h4 h5 h6 h7 h8]
  show ?thesis by simp
qed

text \<open>
  With the vertices \<open>(NaN,0,0)\<close>, \<open>(1,0,0)\<close> the x-coordinate 1 of the second record is
  not within the corners, which are NaN.
\<close>

theorem containment_counterexample:
  "transform_bounds (Some (mem_of_bytes (packed nan_positions))) 2 12 0
     (Some identity_matrix) stale_state =
   Some \<lparr> out_min = [f32_nan, f32_nan, f32_nan], out_max = [f32_nan, f32_nan, f32_nan],
          store_log = [(Out_Min, 0), (Out_Min, 1), (Out_Min, 2),
                       (Out_Max, 0), (Out_Max, 1), (Out_Max, 2)] \<rparr>
   \<and> transformed_coord (mem_of_bytes (packed nan_positions)) 12 0 (Some identity_matrix) 1 0
       = Some f32_one
   \<and> \<not> (fle f32_nan f32_one \<and> fle f32_one f32_nan)"
  by (simp add: nan_call nan_coord coord.simps fle_def
        is_nan_def f32_mag_def inf_mag_def f32_nan_def)

text \<open>
  Claim C4, amended. For a defined call with a non-null buffer and \<^verbatim>\<open>vertex_count > 0\<close>,
  \<^verbatim>\<open>out_min[k] <= out_max[k]\<close> holds exactly when the transformed \<open>k\<close>-coordinate of
  record 0 is not a NaN.
\<close>

theorem min_le_max_iff:
  assumes "transform_bounds (Some base) vertex_count stride_bytes position_offset matrix s = Some s'"
    and "0 < sint vertex_count" and "k < 3"
    and "transformed_coord base stride_bytes position_offset matrix 0 k = Some t0"
  shows "fle (out_min s' ! k) (out_max s' ! k) \<longleftrightarrow> \<not> is_nan t0"
proof -
  define c where "c i = the (transformed_coord base stride_bytes position_offset matrix i k)" for i
  have c: "transformed_coord base stride_bytes position_offset matrix i k = Some (c i)"
    if "i < nat (sint vertex_count)" for i
    using call_coords_defined [OF assms(1,2) that, of k] by (auto simp: c_def)
  note sc = call_scan [OF assms(1,2,3) c]
  have c0: "c 0 = t0" using assms(4) by (simp add: c_def)
  show ?thesis
  proof (cases "is_nan t0")
    case True
    then have "scan_lo (c 0) (map c [1..<nat (sint vertex_count)]) = t0"
      using scan_lo_nan [of "c 0" "map c [1..<nat (sint vertex_count)]"] c0 by simp
    then have "is_nan (out_min s' ! k)" using True by (simp only: sc)
    then show ?thesis using True fle_not_nan by blast
  next
    case False
    then have nn: "\<not> is_nan (c 0)" using c0 by simp
    have "fle (scan_lo (c 0) (map c [1..<nat (sint vertex_count)]))
            (scan_hi (c 0) (map c [1..<nat (sint vertex_count)]))"
      by (rule fle_trans [OF scan_lo_below_start [OF nn] scan_hi_above_start [OF nn]])
    then have "fle (out_min s' ! k) (out_max s' ! k)" by (simp only: sc)
    then show ?thesis using False by simp
  qed
qed

theorem min_le_max_iff_witness:
  "fle 3212836864 1065353216 \<longleftrightarrow> \<not> is_nan 0"
proof -
  have h2: "0 < sint (3 :: c_int)" by simp
  have h3: "(0 :: nat) < 3" by simp
  have h4: "transformed_coord (mem_of_bytes (packed example_positions)) 12 0
              (Some identity_matrix) 0 0 = Some 0"
    by (simp add: example_coord) (simp add: example_positions_def coord.simps)
  from min_le_max_iff [OF example_call h2 h3 h4]
  show ?thesis by simp
qed

text \<open>
  With the vertices \<open>(NaN,0,0)\<close>, \<open>(1,0,0)\<close> both corners are NaN, and a NaN is not less
  than or equal to itself.
\<close>

theorem min_le_max_counterexample:
  "transform_bounds (Some (mem_of_bytes (packed nan_positions))) 2 12 0
     (Some identity_matrix) stale_state =
   Some \<lparr> out_min = [f32_nan, f32_nan, f32_nan], out_max = [f32_nan, f32_nan, f32_nan],
          store_log = [(Out_Min, 0), (Out_Min, 1), (Out_Min, 2),
                       (Out_Max, 0), (Out_Max, 1), (Out_Max, 2)] \<rparr>
   \<and> \<not> fle f32_nan f32_nan"
  by (simp add: nan_call fle_def is_nan_def f32_mag_def inf_mag_def f32_nan_def)

section \<open>The output arrays\<close>

text \<open>
  Claim C9. The prior contents of \<^verbatim>\<open>out_min\<close> and \<^verbatim>\<open>out_max\<close> are never read, and each of
  the six output elements is stored to exactly once: two calls that differ only in the
  initial contents of the output arrays end with the same outputs, and the stores of a call
  go to six distinct elements, which are the six output elements.
\<close>

theorem outputs_write_only:
  assumes "length (out_min s1) = length (out_min s2)"
    and "length (out_max s1) = length (out_max s2)"
  shows "map_option outputs (transform_bounds vertices vertex_count stride_bytes position_offset matrix s1)
         = map_option outputs (transform_bounds vertices vertex_count stride_bytes position_offset matrix s2)
       \<and> (\<forall>s'. transform_bounds vertices vertex_count stride_bytes position_offset matrix s1 = Some s'
             \<longrightarrow> (\<exists>ws. store_log s' = store_log s1 @ ws \<and> distinct ws \<and> set ws = output_elements))"
proof (cases "3 \<le> length (out_min s1) \<and> 3 \<le> length (out_max s1)")
  case False
  then have F2: "\<not> (3 \<le> length (out_min s2) \<and> 3 \<le> length (out_max s2))"
    using assms by simp
  show ?thesis
  proof (cases rule: transform_bounds_cases
          [of vertices vertex_count stride_bytes position_offset matrix])
    case undefined
    then show ?thesis by simp
  next
    case (stores x0 x1 x2 y0 y1 y2)
    show ?thesis
      unfolding stores short_arrays_undefined [OF False] short_arrays_undefined [OF F2]
      by simp
  next
    case (stores' x0 x1 x2 y0 y1 y2)
    show ?thesis
      unfolding stores' short_arrays_undefined [OF False] short_arrays_undefined [OF F2]
      by simp
  qed
next
  case True
  then have l1: "3 \<le> length (out_min s1)" "3 \<le> length (out_max s1)"
    and l2: "3 \<le> length (out_min s2)" "3 \<le> length (out_max s2)"
    using assms by simp_all
  show ?thesis
  proof (cases rule: transform_bounds_cases
          [of vertices vertex_count stride_bytes position_offset matrix])
    case undefined
    then show ?thesis by simp
  next
    case (stores x0 x1 x2 y0 y1 y2)
    show ?thesis
      unfolding stores degenerate_result_gen [OF l1] degenerate_result_gen [OF l2]
      by (auto simp: outputs_def output_elements_def)
  next
    case (stores' x0 x1 x2 y0 y1 y2)
    show ?thesis
      unfolding stores' final_result [OF l1] final_result [OF l2]
      by (auto simp: outputs_def output_elements_def)
  qed
qed

theorem outputs_write_only_witness:
  "map_option outputs (transform_bounds (Some (mem_of_bytes (packed example_positions))) 3 12 0
       (Some identity_matrix) stale_state)
   = map_option outputs (transform_bounds (Some (mem_of_bytes (packed example_positions))) 3 12 0
       (Some identity_matrix) \<lparr> out_min = [1, 2, 3], out_max = [4, 5, 6], store_log = [] \<rparr>)
   \<and> (\<exists>ws. [(Out_Min, 0), (Out_Min, 1), (Out_Min, 2), (Out_Max, 0), (Out_Max, 1), (Out_Max, 2)]
               = store_log stale_state @ ws \<and> distinct ws \<and> set ws = output_elements)"
proof -
  have h1: "length (out_min stale_state)
            = length (out_min \<lparr> out_min = [1, 2, 3], out_max = [4, 5, 6], store_log = [] \<rparr>)"
    and h2: "length (out_max stale_state)
            = length (out_max \<lparr> out_min = [1, 2, 3], out_max = [4, 5, 6], store_log = [] \<rparr>)"
    by (simp_all add: stale_state_def)
  from outputs_write_only [OF h1 h2, of "Some (mem_of_bytes (packed example_positions))" 3 12 0
      "Some identity_matrix"]
  show ?thesis by (simp add: example_call)
qed

section \<open>Record layout and record order\<close>

lemma scaled_bound: "j \<le> n \<Longrightarrow> l \<le> m \<Longrightarrow> n * m \<le> (B::nat) \<Longrightarrow> j * l \<le> B"
  by (rule le_trans [OF mult_le_mono])

lemma padded_records_nth:
  assumes "length pres = length ps" "length posts = length ps" "j < length ps"
  shows "padded_records pres ps posts ! j = pres ! j @ bytes_of_pos (ps ! j) @ posts ! j"
  using assms by (simp add: padded_records_def)

lemma padded_records_length:
  assumes "length pres = length ps" "length posts = length ps"
  shows "length (padded_records pres ps posts) = length ps"
  using assms by (simp add: padded_records_def)

lemma padded_records_uniform:
  assumes "length pres = length ps" "length posts = length ps"
    and "\<forall>pre\<in>set pres. length pre = a" and "\<forall>post\<in>set posts. length post = c"
  shows "\<forall>r\<in>set (padded_records pres ps posts). length r = a + 12 + c"
proof
  fix r assume "r \<in> set (padded_records pres ps posts)"
  then obtain j where j: "j < length ps" and r: "r = padded_records pres ps posts ! j"
    using padded_records_length [OF assms(1,2)] by (auto simp: in_set_conv_nth)
  have "length (pres ! j) = a" "length (posts ! j) = c"
    using assms j by simp_all
  then show "length r = a + 12 + c"
    unfolding r padded_records_nth [OF assms(1,2) j] by simp
qed

lemma load_record_padded:
  assumes "length pres = length ps" "length posts = length ps"
    and "\<forall>pre\<in>set pres. length pre = a" and "\<forall>post\<in>set posts. length post = c"
    and "j < length ps" and "j * (a + 12 + c) \<le> 2147483647"
  shows "load_record (mem_of_bytes (concat (padded_records pres ps posts)))
           (int (a + 12 + c)) (int a) (int j) = Some (ps ! j)"
proof -
  have j': "j < length (padded_records pres ps posts)"
    using assms(5) padded_records_length [OF assms(1,2)] by simp
  have "length (pres ! j) = a" using assms(1,3,5) by simp
  then have "pos_of_record a (padded_records pres ps posts ! j) = ps ! j"
    unfolding padded_records_nth [OF assms(1,2,5)]
    using pos_of_record_bytes [of "pres ! j" "ps ! j" "posts ! j"] by simp
  moreover have "load_record (mem_of_bytes (concat (padded_records pres ps posts)))
           (int (a + 12 + c)) (int a) (int j) = Some (pos_of_record a (padded_records pres ps posts ! j))"
    by (rule load_record_concat [OF padded_records_uniform [OF assms(1-4)] j' _ assms(6)]) simp
  ultimately show ?thesis by simp
qed

lemma padded_call:
  assumes "length pres = length ps" "length posts = length ps"
    and "\<forall>pre\<in>set pres. length pre = a" and "\<forall>post\<in>set posts. length post = c"
    and "sint stride_bytes = int (a + 12 + c)" and "sint position_offset = int a"
    and "sint vertex_count = int (length ps)"
    and "length ps * (a + 12 + c) \<le> 2147483647"
  shows "transform_bounds (Some (mem_of_bytes (concat (padded_records pres ps posts))))
           vertex_count stride_bytes position_offset matrix s
       = transform_bounds (Some (mem_of_bytes (packed ps))) vertex_count 12 0 matrix s"
proof (rule call_cong)
  fix j assume "j < nat (sint vertex_count)"
  then have j: "j < length ps" using assms(7) by simp
  have o: "j * (a + 12 + c) \<le> 2147483647"
    by (rule scaled_bound [OF _ _ assms(8)]) (use j in simp_all)
  have o': "j * 12 \<le> 2147483647"
    by (rule scaled_bound [OF _ _ o]) simp_all
  show "load_record (mem_of_bytes (concat (padded_records pres ps posts)))
          (sint stride_bytes) (sint position_offset) (int j)
        = load_record (mem_of_bytes (packed ps)) (sint (12 :: c_int)) (sint (0 :: c_int)) (int j)"
    using load_record_padded [OF assms(1-4) j o] load_record_packed [OF j o']
    by (simp add: assms(5,6))
qed

lemma map_nth_all: "map (\<lambda>j. f (xs ! j)) [0..<length xs] = map f xs"
proof -
  have "map (\<lambda>j. f (xs ! j)) [0..<length xs] = map f (map (\<lambda>j. xs ! j) [0..<length xs])"
    by simp
  then show ?thesis by (simp only: map_nth)
qed

lemma least_of_feq:
  assumes "least_of a xs" "least_of b ys" "set xs = set ys"
  shows "feq a b"
proof -
  from assms have "fle a b" "fle b a"
    by (auto simp: least_of_def list_all_iff)
  then show ?thesis by (rule fle_antisym)
qed

lemma greatest_of_feq:
  assumes "greatest_of a xs" "greatest_of b ys" "set xs = set ys"
  shows "feq a b"
proof -
  from assms have "fle a b" "fle b a"
    by (auto simp: greatest_of_def list_all_iff)
  then show ?thesis by (rule fle_antisym)
qed

text \<open>The two corners of one axis of a defined call on a buffer of records.\<close>

lemma records_call_extrema:
  assumes "\<forall>r\<in>set recs. length r = L" and "a + 12 \<le> L"
    and "sint stride_bytes = int L" and "sint position_offset = int a"
    and "sint vertex_count = int (length recs)" and "recs \<noteq> []"
    and "transform_bounds (Some (mem_of_bytes (concat recs))) vertex_count stride_bytes
           position_offset matrix s = Some s'"
    and "load_coeffs matrix = Some M" and "k < 3"
    and "\<forall>r\<in>set recs. \<not> is_nan (coord k (transform_point M (pos_of_record a r)))"
  shows "least_of (out_min s' ! k) (map (\<lambda>r. coord k (transform_point M (pos_of_record a r))) recs)"
    and "greatest_of (out_max s' ! k) (map (\<lambda>r. coord k (transform_point M (pos_of_record a r))) recs)"
proof -
  let ?f = "\<lambda>r. coord k (transform_point M (pos_of_record a r))"
  let ?c = "\<lambda>j. ?f (recs ! j)"
  have n: "0 < sint vertex_count" "nat (sint vertex_count) = length recs"
    using assms(5,6) by simp_all
  have c: "transformed_coord (mem_of_bytes (concat recs)) stride_bytes position_offset matrix j k
           = Some (?c j)" if "j < nat (sint vertex_count)" for j
  proof -
    have j: "j < length recs" using that n by simp
    have "int j * sint stride_bytes \<le> 2147483647"
      by (rule call_no_overflow(1) [OF assms(7) n(1) that])
    then have "int (j * L) \<le> int 2147483647" by (simp add: assms(3))
    then have "j * L \<le> 2147483647" by (simp only: of_nat_le_iff)
    from load_record_concat [OF assms(1) j assms(2) this] show ?thesis
      by (simp add: transformed_coord_def assms(3,4,8))
  qed
  have all: "\<forall>j<nat (sint vertex_count).
      transformed_coord (mem_of_bytes (concat recs)) stride_bytes position_offset matrix j k
         = Some (?c j)"
    using c by simp
  have nn: "\<not> is_nan (?c 0)" using assms(6,10) by (cases recs) auto
  have m: "map ?c [0..<nat (sint vertex_count)] = map ?f recs"
    unfolding n(2) by (rule map_nth_all)
  have f: "filter (\<lambda>t. \<not> is_nan t) (map ?f recs) = map ?f recs"
    using assms(10) by (simp add: filter_id_conv)
  have sc: "out_min s' ! k = scan_lo (?c 0) (map ?c [1..<nat (sint vertex_count)])"
    "out_max s' ! k = scan_hi (?c 0) (map ?c [1..<nat (sint vertex_count)])"
    by (rule call_scan [OF assms(7) n(1) assms(9) c], assumption)+
  have e: "map ?c [0..<nat (sint vertex_count)] = ?c 0 # map ?c [1..<nat (sint vertex_count)]"
    using n assms(6) by (simp add: upt_conv_Cons)
  have "least_of (scan_lo (?c 0) (map ?c [1..<nat (sint vertex_count)]))
          (filter (\<lambda>t. \<not> is_nan t) (?c 0 # map ?c [1..<nat (sint vertex_count)]))"
    by (rule scan_lo_least [OF nn])
  then show "least_of (out_min s' ! k) (map ?f recs)"
    by (simp only: sc e [symmetric] m f)
  have "greatest_of (scan_hi (?c 0) (map ?c [1..<nat (sint vertex_count)]))
          (filter (\<lambda>t. \<not> is_nan t) (?c 0 # map ?c [1..<nat (sint vertex_count)]))"
    by (rule scan_hi_greatest [OF nn])
  then show "greatest_of (out_max s' ! k) (map ?f recs)"
    by (simp only: sc e [symmetric] m f)
qed

lemma records_call_defined:
  assumes "\<forall>r\<in>set recs. length r = L" and "a + 12 \<le> L"
    and "sint stride_bytes = int L" and "sint position_offset = int a"
    and "sint vertex_count = int (length recs)" and "recs \<noteq> []"
    and "(length recs - 1) * L \<le> 2147483647"
    and "load_coeffs matrix = Some M"
    and "3 \<le> length (out_min s)" and "3 \<le> length (out_max s)"
  shows "\<exists>s'. transform_bounds (Some (mem_of_bytes (concat recs))) vertex_count stride_bytes
           position_offset matrix s = Some s'"
proof (rule call_defined [OF _ assms(8) _ assms(9,10)])
  show "0 < sint vertex_count" using assms(5,6) by simp
next
  fix j assume "j < nat (sint vertex_count)"
  then have j: "j < length recs" using assms(5) by simp
  have "j * L \<le> 2147483647"
    by (rule scaled_bound [OF _ _ assms(7)]) (use j in simp_all)
  from load_record_concat [OF assms(1) j assms(2) this]
  show "load_record (mem_of_bytes (concat recs)) (sint stride_bytes) (sint position_offset) (int j)
        \<noteq> None"
    by (simp add: assms(3,4))
qed

lemma rev_nan_call:
  "transform_bounds (Some (mem_of_bytes (packed (rev nan_positions)))) 2 12 0
     (Some identity_matrix) stale_state =
   Some \<lparr> out_min = [f32_one, 0, 0], out_max = [f32_one, 0, 0],
          store_log = [(Out_Min, 0), (Out_Min, 1), (Out_Min, 2),
                       (Out_Max, 0), (Out_Max, 1), (Out_Max, 2)] \<rparr>"
proof -
  have t: "map (transform_point identity_affine) (rev nan_positions)
           = (f32_one, 0, 0) # [(f32_nan, f32_nan, f32_nan)]"
    by (simp only: rev_map [symmetric] nan_transformed rev.simps append.simps)
  show ?thesis
    by (subst packed_call [OF _ _ _ identity_coeffs _ _ t])
       (simp_all add: nan_positions_def stale_state_def coord.simps flt_def fgt_def
          is_nan_def f32_mag_def inf_mag_def f32_nan_def)
qed

text \<open>
  Claim C7. Positions embedded in larger records, with padding before and after and a
  position offset that may be non-zero, give the same result as the tightly packed buffer of
  the same positions (stride 12, offset 0): whenever the call on the padded buffer is defined,
  the call on the packed buffer returns the same state.
\<close>

theorem stride_offset_invariance:
  assumes "length pres = length ps" and "length posts = length ps"
    and "\<forall>pre\<in>set pres. length pre = a" and "\<forall>post\<in>set posts. length post = c"
    and "sint stride_bytes = int (a + 12 + c)" and "sint position_offset = int a"
    and "sint vertex_count = int (length ps)"
    and "transform_bounds (Some (mem_of_bytes (concat (padded_records pres ps posts))))
           vertex_count stride_bytes position_offset matrix s = Some s'"
  shows "transform_bounds (Some (mem_of_bytes (packed ps))) vertex_count 12 0 matrix s = Some s'"
proof (cases "0 < sint vertex_count")
  case False
  then have d: "Some (mem_of_bytes (concat (padded_records pres ps posts))) = None \<or> sint vertex_count \<le> 0"
    "Some (mem_of_bytes (packed ps)) = None \<or> sint vertex_count \<le> 0"
    by simp_all
  show ?thesis
    using assms(8)
    by (simp only: transform_bounds_degenerate [OF d(1)] transform_bounds_degenerate [OF d(2)])
next
  case True
  have "transform_bounds (Some (mem_of_bytes (concat (padded_records pres ps posts))))
           vertex_count stride_bytes position_offset matrix s
       = transform_bounds (Some (mem_of_bytes (packed ps))) vertex_count 12 0 matrix s"
  proof (rule call_cong)
    fix j assume jn: "j < nat (sint vertex_count)"
    then have j: "j < length ps" using assms(7) by simp
    have "int j * sint stride_bytes \<le> 2147483647"
      by (rule call_no_overflow(1) [OF assms(8) True jn])
    then have "int (j * (a + 12 + c)) \<le> int 2147483647"
      by (simp add: assms(5))
    then have o: "j * (a + 12 + c) \<le> 2147483647"
      by (simp only: of_nat_le_iff)
    have o': "j * 12 \<le> 2147483647"
      by (rule scaled_bound [OF _ _ o]) simp_all
    show "load_record (mem_of_bytes (concat (padded_records pres ps posts)))
            (sint stride_bytes) (sint position_offset) (int j)
          = load_record (mem_of_bytes (packed ps)) (sint (12 :: c_int)) (sint (0 :: c_int)) (int j)"
      using load_record_padded [OF assms(1-4) j o] load_record_packed [OF j o']
      by (simp add: assms(5,6))
  qed
  then show ?thesis using assms(8) by simp
qed

theorem stride_offset_invariance_witness:
  "transform_bounds
     (Some (mem_of_bytes (concat (padded_records (replicate 3 pad_before) example_positions
                                     (replicate 3 pad_after)))))
     3 24 4 (Some identity_matrix) stale_state =
   Some \<lparr> out_min = [3212836864, 0, 0], out_max = [1065353216, 1084227584, 1077936128],
          store_log = [(Out_Min, 0), (Out_Min, 1), (Out_Min, 2),
                       (Out_Max, 0), (Out_Max, 1), (Out_Max, 2)] \<rparr>
   \<and> transform_bounds (Some (mem_of_bytes (packed example_positions))) 3 12 0
     (Some identity_matrix) stale_state =
   Some \<lparr> out_min = [3212836864, 0, 0], out_max = [1065353216, 1084227584, 1077936128],
          store_log = [(Out_Min, 0), (Out_Min, 1), (Out_Min, 2),
                       (Out_Max, 0), (Out_Max, 1), (Out_Max, 2)] \<rparr>"
proof -
  let ?pres = "replicate 3 pad_before" and ?posts = "replicate 3 pad_after"
  have h1: "length ?pres = length example_positions"
    and h2: "length ?posts = length example_positions"
    by (simp_all add: example_positions_def)
  have h3: "\<forall>pre\<in>set ?pres. length pre = 4" and h4: "\<forall>post\<in>set ?posts. length post = 8"
    by (simp_all add: pad_before_def pad_after_def)
  have h5: "sint (24 :: c_int) = int (4 + 12 + 8)" and h6: "sint (4 :: c_int) = int 4"
    and h7: "sint (3 :: c_int) = int (length example_positions)"
    by (simp_all add: example_positions_def)
  have "length example_positions * (4 + 12 + 8) \<le> 2147483647"
    by (simp add: example_positions_def)
  from padded_call [OF h1 h2 h3 h4 h5 h6 h7 this, of "Some identity_matrix" stale_state]
  have h8: "transform_bounds
      (Some (mem_of_bytes (concat (padded_records ?pres example_positions ?posts))))
      3 24 4 (Some identity_matrix) stale_state =
    Some \<lparr> out_min = [3212836864, 0, 0], out_max = [1065353216, 1084227584, 1077936128],
          store_log = [(Out_Min, 0), (Out_Min, 1), (Out_Min, 2),
                       (Out_Max, 0), (Out_Max, 1), (Out_Max, 2)] \<rparr>"
    by (simp only: example_call)
  from stride_offset_invariance [OF h1 h2 h3 h4 h5 h6 h7 h8] h8 show ?thesis
    by (intro conjI)
qed

text \<open>
  Claim C5, amended. When the records of a buffer are permuted, a defined call stays defined,
  and on every axis on which no transformed coordinate is a NaN the two calls return
  numerically equal corners (equal for the IEEE comparison \<^verbatim>\<open>==\<close>; a zero may differ in sign).
  Each record holds its position: \<^verbatim>\<open>position_offset + 12 <= stride_bytes\<close>.
\<close>

theorem permutation_invariance:
  assumes "mset recs' = mset recs"
    and "\<forall>r\<in>set recs. length r = L" and "a + 12 \<le> L"
    and "sint stride_bytes = int L" and "sint position_offset = int a"
    and "sint vertex_count = int (length recs)" and "recs \<noteq> []"
    and "transform_bounds (Some (mem_of_bytes (concat recs))) vertex_count stride_bytes
           position_offset matrix s = Some s1"
    and "load_coeffs matrix = Some M" and "k < 3"
    and "\<forall>r\<in>set recs. \<not> is_nan (coord k (transform_point M (pos_of_record a r)))"
  shows "\<exists>s2. transform_bounds (Some (mem_of_bytes (concat recs'))) vertex_count stride_bytes
                position_offset matrix s = Some s2
             \<and> feq (out_min s1 ! k) (out_min s2 ! k) \<and> feq (out_max s1 ! k) (out_max s2 ! k)"
proof -
  have set_eq: "set recs' = set recs" using assms(1) by (rule mset_eq_setD)
  have len_eq: "length recs' = length recs" using assms(1) by (rule mset_eq_length)
  have ne': "recs' \<noteq> []" using assms(7) len_eq by auto
  have u': "\<forall>r\<in>set recs'. length r = L" using assms(2) set_eq by simp
  have n': "sint vertex_count = int (length recs')" using assms(6) len_eq by simp
  have n: "0 < sint vertex_count" using assms(6,7) by simp
  have last: "length recs - 1 < nat (sint vertex_count)" using assms(6,7) by simp
  have "int (length recs - 1) * sint stride_bytes \<le> 2147483647"
    by (rule call_no_overflow(1) [OF assms(8) n last])
  then have "int ((length recs - 1) * L) \<le> int 2147483647" by (simp add: assms(4))
  then have o: "(length recs' - 1) * L \<le> 2147483647"
    unfolding len_eq by (simp only: of_nat_le_iff)
  from assms(8) n obtain l: "3 \<le> length (out_min s)" "3 \<le> length (out_max s)"
    by (rule regular_call)
  from records_call_defined [OF u' assms(3,4,5) n' ne' o assms(9) l]
  obtain s2 where s2: "transform_bounds (Some (mem_of_bytes (concat recs'))) vertex_count
      stride_bytes position_offset matrix s = Some s2"
    by blast
  have nn': "\<forall>r\<in>set recs'. \<not> is_nan (coord k (transform_point M (pos_of_record a r)))"
    using assms(11) set_eq by simp
  let ?f = "\<lambda>r. coord k (transform_point M (pos_of_record a r))"
  have sets: "set (map ?f recs) = set (map ?f recs')" using set_eq by simp
  note e1 = records_call_extrema [OF assms(2,3,4,5,6,7,8,9,10,11)]
  note e2 = records_call_extrema [OF u' assms(3,4,5) n' ne' s2 assms(9,10) nn']
  have "feq (out_min s1 ! k) (out_min s2 ! k)"
    by (rule least_of_feq [OF e1(1) e2(1) sets])
  moreover have "feq (out_max s1 ! k) (out_max s2 ! k)"
    by (rule greatest_of_feq [OF e1(2) e2(2) sets])
  ultimately show ?thesis using s2 by blast
qed

theorem permutation_invariance_witness:
  "\<exists>s2. transform_bounds (Some (mem_of_bytes (packed (rev example_positions)))) 3 12 0
            (Some identity_matrix) stale_state = Some s2
        \<and> feq 3212836864 (out_min s2 ! 0) \<and> feq 1065353216 (out_max s2 ! 0)"
proof -
  let ?recs = "map bytes_of_pos example_positions"
  have h1: "mset (rev ?recs) = mset ?recs" by simp
  have h2: "\<forall>r\<in>set ?recs. length r = 12" by simp
  have h3: "(0 :: nat) + 12 \<le> 12" by simp
  have h4: "sint (12 :: c_int) = int 12" and h5: "sint (0 :: c_int) = int 0"
    and h6: "sint (3 :: c_int) = int (length ?recs)" and h7: "?recs \<noteq> []"
    by (simp_all add: example_positions_def)
  have h8: "transform_bounds (Some (mem_of_bytes (concat ?recs))) 3 12 0
      (Some identity_matrix) stale_state =
    Some \<lparr> out_min = [3212836864, 0, 0], out_max = [1065353216, 1084227584, 1077936128],
          store_log = [(Out_Min, 0), (Out_Min, 1), (Out_Min, 2),
                       (Out_Max, 0), (Out_Max, 1), (Out_Max, 2)] \<rparr>"
    using example_call by (simp only: packed_def)
  have h10: "(0 :: nat) < 3" by simp
  have id: "transform_point identity_affine p = p" if "p \<in> set example_positions" for p
    using example_transformed that by (simp add: map_idI [symmetric] map_eq_conv [of _ _ id, simplified])
  have h11: "\<forall>r\<in>set ?recs.
      \<not> is_nan (coord 0 (transform_point identity_affine (pos_of_record 0 r)))"
  proof
    fix r assume "r \<in> set ?recs"
    then obtain p where p: "p \<in> set example_positions" and r: "r = bytes_of_pos p" by auto
    have "pos_of_record 0 r = p"
      using pos_of_record_bytes [of "[]" p "[]"] by (simp add: r)
    then have "coord 0 (transform_point identity_affine (pos_of_record 0 r)) = coord 0 p"
      using id [OF p] by simp
    moreover have "\<not> is_nan (coord 0 p)"
      using p by (auto simp: example_positions_def coord.simps is_nan_def f32_mag_def inf_mag_def)
    ultimately show "\<not> is_nan (coord 0 (transform_point identity_affine (pos_of_record 0 r)))"
      by simp
  qed
  from permutation_invariance [OF h1 h2 h3 h4 h5 h6 h7 h8 identity_coeffs h10 h11]
  show ?thesis by (simp add: packed_def rev_map)
qed

text \<open>
  The claim as stated fails when a transformed coordinate is a NaN: the vertices
  \<open>(NaN,0,0)\<close>, \<open>(1,0,0)\<close> give NaN corners, the same vertices in the other order give
  \<open>out_min = out_max = (1,0,0)\<close>.
\<close>

theorem permutation_invariance_counterexample:
  "mset (rev nan_positions) = mset nan_positions
   \<and> transform_bounds (Some (mem_of_bytes (packed nan_positions))) 2 12 0
       (Some identity_matrix) stale_state =
     Some \<lparr> out_min = [f32_nan, f32_nan, f32_nan], out_max = [f32_nan, f32_nan, f32_nan],
            store_log = [(Out_Min, 0), (Out_Min, 1), (Out_Min, 2),
                         (Out_Max, 0), (Out_Max, 1), (Out_Max, 2)] \<rparr>
   \<and> transform_bounds (Some (mem_of_bytes (packed (rev nan_positions)))) 2 12 0
       (Some identity_matrix) stale_state =
     Some \<lparr> out_min = [f32_one, 0, 0], out_max = [f32_one, 0, 0],
            store_log = [(Out_Min, 0), (Out_Min, 1), (Out_Min, 2),
                         (Out_Max, 0), (Out_Max, 1), (Out_Max, 2)] \<rparr>
   \<and> f32_nan \<noteq> f32_one \<and> \<not> feq f32_nan f32_one"
  by (simp add: nan_call rev_nan_call feq_def is_nan_def f32_mag_def inf_mag_def f32_nan_def
        f32_one_def)

section \<open>Facts of single-precision arithmetic\<close>

subsection \<open>Bit length\<close>

lemma bitlen_le_iff: "bitlen n \<le> b \<longleftrightarrow> n < 2 ^ b"
proof (induction n arbitrary: b rule: bitlen.induct)
  case (1 n)
  show ?case
  proof (cases "n = 0")
    case True
    then show ?thesis by (simp add: bitlen.simps)
  next
    case False
    show ?thesis
    proof (cases b)
      case 0
      then show ?thesis using False by (simp add: bitlen.simps [of n])
    next
      case (Suc b')
      have "bitlen (n div 2) \<le> b' \<longleftrightarrow> n div 2 < 2 ^ b'"
        by (rule "1.IH" [OF False])
      also have "\<dots> \<longleftrightarrow> n < 2 ^ Suc b'"
        by (simp add: less_mult_imp_div_less div_less_iff_less_mult mult.commute)
      finally show ?thesis
        using False Suc by (simp add: bitlen.simps [of n])
    qed
  qed
qed

lemma bitlen_upper: "n < 2 ^ bitlen n"
  using bitlen_le_iff [of n "bitlen n"] by simp

lemma bitlen_lower: "0 < n \<Longrightarrow> 2 ^ (bitlen n - 1) \<le> n"
proof -
  assume n: "0 < n"
  have pos: "0 < bitlen n" using n by (simp add: bitlen.simps [of n])
  have "\<not> bitlen n \<le> bitlen n - 1" using pos by simp
  then have "\<not> n < 2 ^ (bitlen n - 1)" unfolding bitlen_le_iff .
  then show ?thesis by simp
qed

lemma bitlen_mono: "a \<le> b \<Longrightarrow> bitlen a \<le> bitlen b"
  unfolding bitlen_le_iff using bitlen_upper [of b] by simp

lemma bitlen_eqI: "2 ^ b \<le> n \<Longrightarrow> n < 2 ^ Suc b \<Longrightarrow> bitlen n = Suc b"
proof -
  assume l: "2 ^ b \<le> n" and u: "n < 2 ^ Suc b"
  have "bitlen n \<le> Suc b" unfolding bitlen_le_iff using u .
  moreover have "\<not> bitlen n \<le> b" unfolding bitlen_le_iff using l by simp
  ultimately show ?thesis by simp
qed

subsection \<open>Encoding\<close>

lemma inf_mag_less: "inf_mag < 2147483648"
  by (simp add: inf_mag_def)

lemma unat_mk_f32:
  "m < 2147483648 \<Longrightarrow> unat (mk_f32 neg m) = (if neg then 2147483648 else 0) + m"
  by (simp add: mk_f32_def unat_of_nat del: of_nat_add of_nat_numeral)

lemma mk_f32_mag: "m < 2147483648 \<Longrightarrow> f32_mag (mk_f32 neg m) = m"
  by (simp add: f32_mag_def unat_mk_f32)

lemma mk_f32_sign: "m < 2147483648 \<Longrightarrow> f32_sign (mk_f32 neg m) = neg"
  by (simp add: f32_sign_def unat_mk_f32)

lemma round_mag_le: "round_mag a d \<le> inf_mag"
  by (simp add: round_mag_def Let_def)

lemma round_mag_less: "round_mag a d < 2147483648"
  using round_mag_le [of a d] inf_mag_less by simp


subsection \<open>Rounding a representable value\<close>

lemma round_mag_shift:
  assumes "m < 16777216" and "8388608 \<le> m \<or> j = 0"
  shows "round_mag (m * 2 ^ (d + j)) d = min inf_mag (j * 8388608 + m)"
proof -
  let ?a = "m * 2 ^ (d + j)"
  have k: "max d (bitlen ?a - 24) = d + j"
  proof (cases "8388608 \<le> m")
    case True
    have "2 ^ (23 + (d + j)) \<le> ?a"
      using True by (simp add: power_add)
    moreover have "?a < 2 ^ Suc (23 + (d + j))"
      using assms(1) by (simp add: power_add)
    ultimately have "bitlen ?a = Suc (23 + (d + j))" by (rule bitlen_eqI)
    then show ?thesis by simp
  next
    case False
    then have j: "j = 0" using assms(2) by simp
    have "?a < 2 ^ (24 + d)" using assms(1) j by (simp add: power_add)
    then have "bitlen ?a \<le> 24 + d" unfolding bitlen_le_iff .
    then show ?thesis using j by simp
  qed
  have "round_half_even ?a (d + j) = m"
    by (simp add: round_half_even_def)
  then show ?thesis
    by (simp add: round_mag_def Let_def k)
qed

lemma round_mag_exact:
  assumes "g < inf_mag"
  shows "round_mag (mag_units g * 2 ^ d) d = g"
proof (cases "g div 8388608 = 0")
  case True
  then have g: "g < 8388608" by (simp add: div_eq_0_iff)
  have u: "mag_units g = g" using g by (simp add: mag_units_def)
  have "round_mag (g * 2 ^ (d + 0)) d = min inf_mag (0 * 8388608 + g)"
    by (rule round_mag_shift) (use g in simp_all)
  then show ?thesis using assms by (simp add: u)
next
  case False
  define e f where "e = g div 8388608" and "f = g mod 8388608"
  have e: "0 < e" using False by (simp add: e_def)
  have g: "g = e * 8388608 + f" by (simp add: e_def f_def)
  have f: "f < 8388608" by (simp add: f_def)
  have u: "mag_units g = (8388608 + f) * 2 ^ (e - 1)"
    using False by (simp add: mag_units_def e_def f_def)
  have "mag_units g * 2 ^ d = (8388608 + f) * 2 ^ (d + (e - 1))"
    unfolding u by (simp add: power_add)
  moreover have "round_mag ((8388608 + f) * 2 ^ (d + (e - 1))) d
      = min inf_mag ((e - 1) * 8388608 + (8388608 + f))"
    by (rule round_mag_shift) (use f in simp_all)
  moreover have "(e - 1) * 8388608 + (8388608 + f) = g"
    using e g by (cases e) simp_all
  ultimately show ?thesis using assms by simp
qed

lemma round_mag_zero [simp]: "round_mag 0 d = 0"
  using round_mag_exact [of 0 d] by (simp add: mag_units_def inf_mag_def)


subsection \<open>Rounding is monotone\<close>

lemma round_half_even_bounds:
  "a div 2 ^ k \<le> round_half_even a k" "round_half_even a k \<le> a div 2 ^ k + 1"
  by (simp_all add: round_half_even_def Let_def)

lemma round_half_even_mono:
  assumes "a \<le> b"
  shows "round_half_even a k \<le> round_half_even b k"
proof (cases "a div 2 ^ k = b div 2 ^ k")
  case False
  have "a div 2 ^ k \<le> b div 2 ^ k" using assms by (rule div_le_mono)
  then have "a div 2 ^ k + 1 \<le> b div 2 ^ k" using False by simp
  then show ?thesis
    using round_half_even_bounds(2) [of a k] round_half_even_bounds(1) [of b k] by linarith
next
  case True
  have "a = 2 ^ k * (a div 2 ^ k) + a mod 2 ^ k" "b = 2 ^ k * (b div 2 ^ k) + b mod 2 ^ k"
    by simp_all
  then have "a mod 2 ^ k \<le> b mod 2 ^ k"
    using assms True by (metis add_le_cancel_left)
  then show ?thesis
    using True by (auto simp: round_half_even_def Let_def)
qed

lemma round_mag_small: "a < 16777216 \<Longrightarrow> round_mag a 0 = a"
  using round_mag_shift [of a 0 0] by (simp add: inf_mag_def)

text \<open>Before the cap at infinity, for at least 25 significant bits.\<close>

lemma round_large_bounds:
  assumes "16777216 \<le> a" and "k = bitlen a - 24"
  shows "(k + 1) * 8388608 \<le> k * 8388608 + round_half_even a k"
    and "k * 8388608 + round_half_even a k \<le> (k + 2) * 8388608"
    and "0 < k"
proof -
  have "\<not> bitlen a \<le> 24" unfolding bitlen_le_iff using assms(1) by simp
  then have bl: "bitlen a = 24 + k" and k: "0 < k" using assms(2) by simp_all
  show "0 < k" by (rule k)
  have "2 ^ (bitlen a - 1) \<le> a" using assms(1) by (intro bitlen_lower) simp
  then have lo: "2 ^ (23 + k) \<le> a" by (simp add: bl)
  have hi: "a < 2 ^ (24 + k)" using bitlen_upper [of a] by (simp add: bl)
  have "2 ^ 23 * 2 ^ k \<le> a" using lo by (simp add: power_add)
  then have "2 ^ 23 \<le> a div 2 ^ k"
    by (simp add: less_eq_div_iff_mult_less_eq)
  then have q1: "8388608 \<le> a div 2 ^ k" by simp
  have "a < 2 ^ 24 * 2 ^ k" using hi by (simp add: power_add)
  then have "a div 2 ^ k < 2 ^ 24"
    by (simp add: less_mult_imp_div_less)
  then have q2: "a div 2 ^ k < 16777216" by simp
  show "(k + 1) * 8388608 \<le> k * 8388608 + round_half_even a k"
    using q1 round_half_even_bounds(1) [of a k] by simp
  show "k * 8388608 + round_half_even a k \<le> (k + 2) * 8388608"
    using q2 round_half_even_bounds(2) [of a k] by simp
qed

lemma round_mag_large:
  "16777216 \<le> a \<Longrightarrow>
   round_mag a 0 = min inf_mag ((bitlen a - 24) * 8388608 + round_half_even a (bitlen a - 24))"
  by (simp add: round_mag_def Let_def)

lemma round_mag_mono:
  assumes "a \<le> b"
  shows "round_mag a 0 \<le> round_mag b 0"
proof (cases "b < 16777216")
  case True
  then show ?thesis using assms by (simp add: round_mag_small)
next
  case bl: False
  define kb where "kb = bitlen b - 24"
  note b = round_large_bounds [OF _ kb_def]
  have rb: "round_mag b 0 = min inf_mag (kb * 8388608 + round_half_even b kb)"
    using bl by (simp add: round_mag_large kb_def)
  show ?thesis
  proof (cases "a < 16777216")
    case True
    have "a < 2 * 8388608" using True by simp
    also have "\<dots> \<le> (kb + 1) * 8388608" using b(3) bl by simp
    also have "\<dots> \<le> kb * 8388608 + round_half_even b kb" using b(1) bl by simp
    finally have "a \<le> kb * 8388608 + round_half_even b kb" by simp
    moreover have "a \<le> inf_mag" using True by (simp add: inf_mag_def)
    ultimately show ?thesis using True by (simp add: round_mag_small rb)
  next
    case al: False
    define ka where "ka = bitlen a - 24"
    note a = round_large_bounds [OF _ ka_def]
    have ra: "round_mag a 0 = min inf_mag (ka * 8388608 + round_half_even a ka)"
      using al by (simp add: round_mag_large ka_def)
    have kk: "ka \<le> kb" unfolding ka_def kb_def using bitlen_mono [OF assms] by simp
    have "ka * 8388608 + round_half_even a ka \<le> kb * 8388608 + round_half_even b kb"
    proof (cases "ka = kb")
      case True
      then show ?thesis using round_half_even_mono [OF assms, of kb] by simp
    next
      case False
      then have "ka + 2 \<le> kb + 1" using kk by simp
      then have "(ka + 2) * 8388608 \<le> (kb + 1) * 8388608" by (rule mult_le_mono1)
      then show ?thesis using a(2) b(1) al bl by linarith
    qed
    then show ?thesis unfolding ra rb by (simp add: min_le_iff_disj)
  qed
qed

subsection \<open>Values of finite floats\<close>

lemma mag_units_mono:
  assumes "g \<le> h"
  shows "mag_units g \<le> mag_units h"
proof -
  define e f where "e = g div 8388608" and "f = g mod 8388608"
  define e' f' where "e' = h div 8388608" and "f' = h mod 8388608"
  have f: "f < 8388608" "f' < 8388608" by (simp_all add: f_def f'_def)
  have g: "g = e * 8388608 + f" and h: "h = e' * 8388608 + f'"
    by (simp_all add: e_def f_def e'_def f'_def)
  have ee: "e \<le> e'" unfolding e_def e'_def using assms by (rule div_le_mono)
  have ug: "mag_units g = (if e = 0 then f else (8388608 + f) * 2 ^ (e - 1))"
    and uh: "mag_units h = (if e' = 0 then f' else (8388608 + f') * 2 ^ (e' - 1))"
    by (simp_all add: mag_units_def e_def f_def e'_def f'_def)
  show ?thesis
  proof (cases "e = e'")
    case True
    then have "f \<le> f'" using assms g h by simp
    then show ?thesis unfolding ug uh using True by simp
  next
    case False
    then have lt: "e < e'" using ee by simp
    have "mag_units g < 8388608 * 2 ^ e"
    proof (cases "e = 0")
      case True
      then show ?thesis unfolding ug using f by simp
    next
      case False
      have "(8388608 + f) * 2 ^ (e - 1) < (2 * 8388608) * 2 ^ (e - 1)"
        using f by simp
      also have "\<dots> = 8388608 * 2 ^ Suc (e - 1)" by simp
      finally show ?thesis unfolding ug using False by simp
    qed
    also have "(8388608 :: nat) * 2 ^ e \<le> 8388608 * 2 ^ (e' - 1)"
      using lt by (simp add: power_increasing)
    also have "\<dots> \<le> (8388608 + f') * 2 ^ (e' - 1)" by simp
    also have "\<dots> = mag_units h" unfolding uh using lt by simp
    finally show ?thesis by simp
  qed
qed

lemma mag_units_zero [simp]: "mag_units 0 = 0"
  by (simp add: mag_units_def)

lemma f32_units_zero: "f32_mag w = 0 \<Longrightarrow> f32_units w = 0"
  by (simp add: f32_units_def)

text \<open>The order of the keys is the order of the values.\<close>

lemma key_le_units_le:
  assumes "f32_key a \<le> f32_key b"
  shows "f32_units a \<le> f32_units b"
proof -
  consider (pp) "\<not> f32_sign a" "\<not> f32_sign b" | (nn) "f32_sign a" "f32_sign b"
    | (np) "f32_sign a" "\<not> f32_sign b" | (pn) "\<not> f32_sign a" "f32_sign b"
    by blast
  then show ?thesis
  proof cases
    case pp
    then have "f32_mag a \<le> f32_mag b" using assms by (simp add: f32_key_def)
    then show ?thesis using pp mag_units_mono by (simp add: f32_units_def)
  next
    case nn
    then have "f32_mag b \<le> f32_mag a" using assms by (simp add: f32_key_def)
    then show ?thesis using nn mag_units_mono by (simp add: f32_units_def)
  next
    case np
    then show ?thesis by (simp add: f32_units_def)
  next
    case pn
    then have "f32_mag a = 0" "f32_mag b = 0" using assms by (simp_all add: f32_key_def)
    then show ?thesis by (simp add: f32_units_def)
  qed
qed

subsection \<open>Sums and products of finite floats\<close>

text \<open>The key of the float nearest to \<open>s\<close> units.\<close>

lemma finite_not_special: "is_finite w \<Longrightarrow> \<not> is_nan w \<and> \<not> is_inf w"
  by (simp add: is_finite_def is_nan_def is_inf_def)

lemma fadd_finite_key:
  assumes "is_finite a" "is_finite b"
  shows "\<not> is_nan (fadd a b)"
    and "f32_key (fadd a b) =
           (if f32_units a + f32_units b < 0
            then - int (round_mag (nat (- (f32_units a + f32_units b))) 0)
            else int (round_mag (nat (f32_units a + f32_units b)) 0))"
proof -
  let ?s = "f32_units a + f32_units b"
  have ns: "\<not> is_nan a" "\<not> is_nan b" "\<not> is_inf a" "\<not> is_inf b"
    using assms finite_not_special by simp_all
  let ?m = "round_mag (nat \<bar>?s\<bar>) 0"
  have r: "fadd a b = (if ?s = 0 then mk_f32 (f32_sign a \<and> f32_sign b) 0 else mk_f32 (?s < 0) ?m)"
    using ns by (simp add: fadd_def Let_def)
  have m: "f32_mag (fadd a b) = (if ?s = 0 then 0 else ?m)"
    unfolding r by (simp add: mk_f32_mag round_mag_less)
  have sg: "?s \<noteq> 0 \<Longrightarrow> f32_sign (fadd a b) = (?s < 0)"
    unfolding r by (simp add: mk_f32_sign round_mag_less)
  show "\<not> is_nan (fadd a b)"
    unfolding is_nan_def m using round_mag_le [of "nat \<bar>?s\<bar>" 0] by simp
  show "f32_key (fadd a b) =
           (if ?s < 0 then - int (round_mag (nat (- ?s)) 0) else int (round_mag (nat ?s) 0))"
  proof (cases "?s = 0")
    case True
    then show ?thesis unfolding f32_key_def m by simp
  next
    case False
    have "\<bar>?s\<bar> = (if ?s < 0 then - ?s else ?s)" by simp
    then show ?thesis unfolding f32_key_def m sg [OF False] using False by simp
  qed
qed

lemma rounded_key_mono:
  assumes "(s :: int) \<le> t"
  shows "(if s < 0 then - int (round_mag (nat (- s)) 0) else int (round_mag (nat s) 0))
       \<le> (if t < 0 then - int (round_mag (nat (- t)) 0) else int (round_mag (nat t) 0))"
proof -
  consider (nn) "s < 0" "t < 0" | (np) "s < 0" "0 \<le> t" | (pp) "0 \<le> s" "0 \<le> t"
    using assms by linarith
  then show ?thesis
  proof cases
    case nn
    have "nat (- t) \<le> nat (- s)" using assms by simp
    from round_mag_mono [OF this] show ?thesis using nn by simp
  next
    case np
    then show ?thesis by simp
  next
    case pp
    have "nat s \<le> nat t" using assms by simp
    from round_mag_mono [OF this] show ?thesis using pp by simp
  qed
qed

text \<open>Adding a zero keeps the value.\<close>

lemma units_sign: "f32_units w < 0 \<Longrightarrow> f32_sign w" "f32_units w \<noteq> 0 \<Longrightarrow> (f32_units w < 0) = f32_sign w"
  by (auto simp: f32_units_def split: if_splits)

lemma abs_units: "nat \<bar>f32_units w\<bar> = mag_units (f32_mag w)"
  by (simp add: f32_units_def)

lemma round_units: "is_finite w \<Longrightarrow> round_mag (nat \<bar>f32_units w\<bar>) 0 = f32_mag w"
  using round_mag_exact [of "f32_mag w" 0] by (simp add: abs_units is_finite_def)

lemma fadd_zero_right:
  assumes "is_finite p" "f32_mag q = 0"
  shows "is_finite (fadd p q)" and "f32_units (fadd p q) = f32_units p"
proof -
  have q: "is_finite q" "f32_units q = 0"
    using assms(2) by (simp_all add: is_finite_def inf_mag_def f32_units_def)
  have ns: "\<not> is_nan p" "\<not> is_nan q" "\<not> is_inf p" "\<not> is_inf q"
    using assms(1) q(1) finite_not_special by simp_all
  let ?s = "f32_units p"
  have r: "fadd p q = (if ?s = 0 then mk_f32 (f32_sign p \<and> f32_sign q) 0
                        else mk_f32 (f32_sign p) (f32_mag p))"
    using ns q(2) units_sign(2) [of p] round_units [OF assms(1)]
    by (simp add: fadd_def Let_def)
  have lt: "f32_mag p < 2147483648"
    using assms(1) inf_mag_less by (simp add: is_finite_def)
  show "is_finite (fadd p q)"
    unfolding r using assms(1) lt by (simp add: is_finite_def mk_f32_mag inf_mag_def)
  show "f32_units (fadd p q) = f32_units p"
    unfolding r using lt by (simp add: f32_units_def mk_f32_mag mk_f32_sign)
qed

lemma fadd_zero_left:
  assumes "f32_mag p = 0" "is_finite q"
  shows "is_finite (fadd p q)" and "f32_units (fadd p q) = f32_units q"
proof -
  have p: "is_finite p" "f32_units p = 0"
    using assms(1) by (simp_all add: is_finite_def inf_mag_def f32_units_def)
  have ns: "\<not> is_nan p" "\<not> is_nan q" "\<not> is_inf p" "\<not> is_inf q"
    using assms(2) p(1) finite_not_special by simp_all
  let ?s = "f32_units q"
  have r: "fadd p q = (if ?s = 0 then mk_f32 (f32_sign p \<and> f32_sign q) 0
                        else mk_f32 (f32_sign q) (f32_mag q))"
    using ns p(2) units_sign(2) [of q] round_units [OF assms(2)]
    by (simp add: fadd_def Let_def)
  have lt: "f32_mag q < 2147483648"
    using assms(2) inf_mag_less by (simp add: is_finite_def)
  show "is_finite (fadd p q)"
    unfolding r using assms(2) lt by (simp add: is_finite_def mk_f32_mag inf_mag_def)
  show "f32_units (fadd p q) = f32_units q"
    unfolding r using lt by (simp add: f32_units_def mk_f32_mag mk_f32_sign)
qed

lemma finite_units_zero: "is_finite w \<Longrightarrow> f32_units w = 0 \<Longrightarrow> f32_mag w = 0"
proof -
  assume fin: "is_finite w" and z: "f32_units w = 0"
  have "mag_units (f32_mag w) = 0" using z by (simp add: f32_units_def split: if_splits)
  then have "round_mag (mag_units (f32_mag w) * 2 ^ 0) 0 = 0" by simp
  then show ?thesis using round_mag_exact [of "f32_mag w" 0] fin by (simp add: is_finite_def)
qed

lemma fmul_one:
  assumes "is_finite x"
  shows "is_finite (fmul f32_one x)" and "f32_units (fmul f32_one x) = f32_units x"
proof -
  have one: "\<not> is_nan f32_one" "\<not> is_inf f32_one" "\<not> f32_sign f32_one"
    "mag_units (f32_mag f32_one) = 2 ^ 149"
    by (simp_all add: f32_one_def is_nan_def is_inf_def f32_sign_def f32_mag_def inf_mag_def
          mag_units_def)
  have ns: "\<not> is_nan x" "\<not> is_inf x" using assms finite_not_special by simp_all
  have "round_mag (mag_units (f32_mag x) * 2 ^ 149) 149 = f32_mag x"
    using assms by (intro round_mag_exact) (simp add: is_finite_def)
  then have r: "fmul f32_one x = mk_f32 (f32_sign x) (f32_mag x)"
    using ns one by (simp add: fmul_def mult.commute)
  have lt: "f32_mag x < 2147483648"
    using assms inf_mag_less by (simp add: is_finite_def)
  show "is_finite (fmul f32_one x)"
    unfolding r using assms lt by (simp add: is_finite_def mk_f32_mag)
  show "f32_units (fmul f32_one x) = f32_units x"
    unfolding r using lt by (simp add: f32_units_def mk_f32_mag mk_f32_sign)
qed

lemma fmul_zero:
  assumes "is_finite y"
  shows "f32_mag (fmul 0 y) = 0"
proof -
  have z: "\<not> is_nan 0" "\<not> is_inf 0" "f32_mag 0 = 0"
    by (simp_all add: is_nan_def is_inf_def f32_mag_def inf_mag_def)
  have ns: "\<not> is_nan y" "\<not> is_inf y" using assms finite_not_special by simp_all
  have "fmul 0 y = mk_f32 (f32_sign 0 \<noteq> f32_sign y) 0"
    using z ns by (simp add: fmul_def)
  then show ?thesis by (simp add: mk_f32_mag)
qed

lemma translation_coeffs:
  "load_coeffs (Some (translation_matrix tx ty tz)) = Some (translation_affine tx ty tz)"
  by (simp add: load_coeffs_def load_elem_def translation_matrix_def translation_affine_def)

lemma identity_is_translation:
  "identity_matrix = translation_matrix 0 0 0" "identity_affine = translation_affine 0 0 0"
  by (simp_all add: identity_matrix_def translation_matrix_def identity_affine_def
        translation_affine_def)

lemma zero_mag [simp]: "f32_mag 0 = 0"
  by (simp add: f32_mag_def)

lemma zero_finite [simp]: "is_finite 0"
  by (simp add: is_finite_def inf_mag_def)

lemma mag_zero_finite: "f32_mag w = 0 \<Longrightarrow> is_finite w"
  by (simp add: is_finite_def inf_mag_def)

text \<open>
  A row of a translation matrix: the coordinate of the point, with its value unchanged, plus
  the translation.
\<close>

lemma translated_coord:
  assumes "is_finite x" "is_finite y" "is_finite z" "k < 3"
  shows "\<exists>u. is_finite u \<and> f32_units u = f32_units (coord k (x, y, z))
           \<and> coord k (transform_point (translation_affine tx ty tz) (x, y, z))
               = fadd u ([tx, ty, tz] ! k)"
proof -
  note zx = fmul_zero [OF assms(1)] and zy = fmul_zero [OF assms(2)] and zz = fmul_zero [OF assms(3)]
  consider "k = 0" | "k = 1" | "k = 2" using assms(4) by linarith
  then show ?thesis
  proof cases
    case 1
    let ?u = "fadd (fadd (fmul f32_one x) (fmul 0 y)) (fmul 0 z)"
    note a = fadd_zero_right [OF fmul_one(1) [OF assms(1)] zy]
    note b = fadd_zero_right [OF a(1) zz]
    have "is_finite ?u" by (rule b(1))
    moreover have "f32_units ?u = f32_units x"
      by (simp only: b(2) a(2) fmul_one(2) [OF assms(1)])
    ultimately show ?thesis
      using 1 by (intro exI [of _ ?u])
        (simp add: coord.simps transform_point.simps translation_affine_def affine_row_def)
  next
    case 2
    let ?u = "fadd (fadd (fmul 0 x) (fmul f32_one y)) (fmul 0 z)"
    note a = fadd_zero_left [OF zx fmul_one(1) [OF assms(2)]]
    note b = fadd_zero_right [OF a(1) zz]
    have "is_finite ?u" by (rule b(1))
    moreover have "f32_units ?u = f32_units y"
      by (simp only: b(2) a(2) fmul_one(2) [OF assms(2)])
    ultimately show ?thesis
      using 2 by (intro exI [of _ ?u])
        (simp add: coord.simps transform_point.simps translation_affine_def affine_row_def)
  next
    case 3
    let ?u = "fadd (fadd (fmul 0 x) (fmul 0 y)) (fmul f32_one z)"
    note a = fadd_zero_left [OF zx mag_zero_finite [OF zy]]
    have "f32_units (fadd (fmul 0 x) (fmul 0 y)) = 0"
      by (simp only: a(2) f32_units_zero [OF zy])
    then have m: "f32_mag (fadd (fmul 0 x) (fmul 0 y)) = 0"
      by (rule finite_units_zero [OF a(1)])
    note b = fadd_zero_left [OF m fmul_one(1) [OF assms(3)]]
    have "is_finite ?u" by (rule b(1))
    moreover have "f32_units ?u = f32_units z"
      by (simp only: b(2) fmul_one(2) [OF assms(3)])
    ultimately show ?thesis
      using 3 by (intro exI [of _ ?u])
        (simp add: coord.simps transform_point.simps translation_affine_def affine_row_def)
  qed
qed

lemma fadd_rounded_key:
  assumes "is_finite a" "is_finite b"
  shows "f32_key (fadd a b) = rounded_key (f32_units a + f32_units b)"
  unfolding rounded_key_def by (rule fadd_finite_key(2) [OF assms])

lemma rounded_key_le: "s \<le> t \<Longrightarrow> rounded_key s \<le> rounded_key t"
  unfolding rounded_key_def by (rule rounded_key_mono)

text \<open>What the two matrices do to coordinate \<open>k\<close> of a finite point.\<close>

lemma identity_and_translation:
  assumes "is_finite x" "is_finite y" "is_finite z" "k < 3" "is_finite ([tx, ty, tz] ! k)"
  shows "is_finite (coord k (transform_point identity_affine (x, y, z)))
       \<and> \<not> is_nan (coord k (transform_point (translation_affine tx ty tz) (x, y, z)))
       \<and> f32_key (coord k (transform_point (translation_affine tx ty tz) (x, y, z)))
           = rounded_key (f32_units (coord k (transform_point identity_affine (x, y, z)))
                          + f32_units ([tx, ty, tz] ! k))"
proof -
  from translated_coord [OF assms(1-4), of 0 0 0] obtain u where
    u: "is_finite u" "f32_units u = f32_units (coord k (x, y, z))"
    "coord k (transform_point identity_affine (x, y, z)) = fadd u ([0, 0, 0] ! k)"
    unfolding identity_is_translation by blast
  have z: "[0, 0, 0 :: f32] ! k = 0" using assms(4) by (auto simp: less_Suc_eq numeral_3_eq_3)
  note i = fadd_zero_right [OF u(1) zero_mag]
  from translated_coord [OF assms(1-4), of tx ty tz] obtain v where
    v: "is_finite v" "f32_units v = f32_units (coord k (x, y, z))"
    "coord k (transform_point (translation_affine tx ty tz) (x, y, z)) = fadd v ([tx, ty, tz] ! k)"
    by blast
  show ?thesis
    unfolding u(3) v(3) z
    using i fadd_finite_key(1) [OF v(1) assms(5)] fadd_rounded_key [OF v(1) assms(5)] u(2) v(2)
    by simp
qed

lemma least_ofD:
  assumes "least_of m ts"
  shows "m \<in> set ts" and "\<And>t. t \<in> set ts \<Longrightarrow> fle m t"
  using assms by (auto simp: least_of_def list_all_iff)

lemma greatest_ofD:
  assumes "greatest_of m ts"
  shows "m \<in> set ts" and "\<And>t. t \<in> set ts \<Longrightarrow> fle t m"
  using assms by (auto simp: greatest_of_def list_all_iff)

lemma fle_key: "fle a b \<Longrightarrow> f32_key a \<le> f32_key b"
  by (simp add: fle_def)

lemma feq_keyI: "\<not> is_nan a \<Longrightarrow> \<not> is_nan b \<Longrightarrow> f32_key a = f32_key b \<Longrightarrow> feq a b"
  by (simp add: feq_def)

text \<open>
  A monotone map of the values commutes with taking a least or a greatest element, up to
  numerical equality.
\<close>

lemma shift_least:
  assumes "least_of mn (map cI js)" and "least_of mn' (map cT js)"
    and "\<forall>j\<in>set js. is_finite (cI j) \<and> \<not> is_nan (cT j)
           \<and> f32_key (cT j) = rounded_key (f32_units (cI j) + f32_units t)"
    and "is_finite t"
  shows "feq mn' (fadd mn t)"
proof -
  from least_ofD(1) [OF assms(1)] obtain i where i: "i \<in> set js" "mn = cI i" by auto
  from least_ofD(1) [OF assms(2)] obtain i' where i': "i' \<in> set js" "mn' = cT i'" by auto
  have fin: "is_finite mn" using assms(3) i by simp
  have k: "f32_key (fadd mn t) = rounded_key (f32_units mn + f32_units t)"
    by (rule fadd_rounded_key [OF fin assms(4)])
  have "fle mn' (cT i)" using least_ofD(2) [OF assms(2)] i(1) by simp
  then have "f32_key mn' \<le> f32_key (cT i)" by (rule fle_key)
  then have le: "f32_key mn' \<le> f32_key (fadd mn t)"
    using assms(3) i k by simp
  have "fle mn (cI i')" using least_ofD(2) [OF assms(1)] i'(1) by simp
  then have "f32_units mn \<le> f32_units (cI i')" by (intro key_le_units_le fle_key)
  then have "rounded_key (f32_units mn + f32_units t) \<le> rounded_key (f32_units (cI i') + f32_units t)"
    by (intro rounded_key_le) simp
  then have ge: "f32_key (fadd mn t) \<le> f32_key mn'"
    using assms(3) i' k by simp
  have "\<not> is_nan mn'" using assms(3) i' by simp
  moreover have "\<not> is_nan (fadd mn t)" by (rule fadd_finite_key(1) [OF fin assms(4)])
  ultimately show ?thesis using le ge by (intro feq_keyI) simp_all
qed

lemma shift_greatest:
  assumes "greatest_of mx (map cI js)" and "greatest_of mx' (map cT js)"
    and "\<forall>j\<in>set js. is_finite (cI j) \<and> \<not> is_nan (cT j)
           \<and> f32_key (cT j) = rounded_key (f32_units (cI j) + f32_units t)"
    and "is_finite t"
  shows "feq mx' (fadd mx t)"
proof -
  from greatest_ofD(1) [OF assms(1)] obtain i where i: "i \<in> set js" "mx = cI i" by auto
  from greatest_ofD(1) [OF assms(2)] obtain i' where i': "i' \<in> set js" "mx' = cT i'" by auto
  have fin: "is_finite mx" using assms(3) i by simp
  have k: "f32_key (fadd mx t) = rounded_key (f32_units mx + f32_units t)"
    by (rule fadd_rounded_key [OF fin assms(4)])
  have "fle (cT i) mx'" using greatest_ofD(2) [OF assms(2)] i(1) by simp
  then have "f32_key (cT i) \<le> f32_key mx'" by (rule fle_key)
  then have ge: "f32_key (fadd mx t) \<le> f32_key mx'"
    using assms(3) i k by simp
  have "fle (cI i') mx" using greatest_ofD(2) [OF assms(1)] i'(1) by simp
  then have "f32_units (cI i') \<le> f32_units mx" by (intro key_le_units_le fle_key)
  then have "rounded_key (f32_units (cI i') + f32_units t) \<le> rounded_key (f32_units mx + f32_units t)"
    by (intro rounded_key_le) simp
  then have le: "f32_key mx' \<le> f32_key (fadd mx t)"
    using assms(3) i' k by simp
  have "\<not> is_nan mx'" using assms(3) i' by simp
  moreover have "\<not> is_nan (fadd mx t)" by (rule fadd_finite_key(1) [OF fin assms(4)])
  ultimately show ?thesis using le ge by (intro feq_keyI) simp_all
qed

lemma call_extrema:
  assumes "transform_bounds (Some base) vertex_count stride_bytes position_offset matrix s = Some s'"
    and "0 < sint vertex_count" and "k < 3"
    and "\<And>j. j < nat (sint vertex_count) \<Longrightarrow>
           transformed_coord base stride_bytes position_offset matrix j k = Some (c j)"
    and "\<And>j. j < nat (sint vertex_count) \<Longrightarrow> \<not> is_nan (c j)"
  shows "least_of (out_min s' ! k) (map c [0..<nat (sint vertex_count)])"
    and "greatest_of (out_max s' ! k) (map c [0..<nat (sint vertex_count)])"
proof -
  have n: "0 < nat (sint vertex_count)" using assms(2) by simp
  note sc = call_scan [OF assms(1,2,3,4)]
  have e: "map c [0..<nat (sint vertex_count)] = c 0 # map c [1..<nat (sint vertex_count)]"
    using n by (simp add: upt_conv_Cons)
  have f: "filter (\<lambda>t. \<not> is_nan t) (map c [0..<nat (sint vertex_count)])
           = map c [0..<nat (sint vertex_count)]"
    using assms(5) by (simp add: filter_id_conv)
  have "least_of (scan_lo (c 0) (map c [1..<nat (sint vertex_count)]))
          (filter (\<lambda>t. \<not> is_nan t) (c 0 # map c [1..<nat (sint vertex_count)]))"
    by (rule scan_lo_least [OF assms(5) [OF n]])
  then show "least_of (out_min s' ! k) (map c [0..<nat (sint vertex_count)])"
    by (simp only: sc e [symmetric] f)
  have "greatest_of (scan_hi (c 0) (map c [1..<nat (sint vertex_count)]))
          (filter (\<lambda>t. \<not> is_nan t) (c 0 # map c [1..<nat (sint vertex_count)]))"
    by (rule scan_hi_greatest [OF assms(5) [OF n]])
  then show "greatest_of (out_max s' ! k) (map c [0..<nat (sint vertex_count)])"
    by (simp only: sc e [symmetric] f)
qed

section \<open>Translation\<close>

lemma inf_identity_transformed:
  "map (transform_point identity_affine) inf_positions
     = [(f32_inf, f32_nan, f32_nan), (f32_one, 0, 0)]"
  by (simp add: inf_positions_def identity_affine_def transform_point.simps affine_row_def
        f32_eval f32_inf_def)

lemma inf_translation_transformed:
  "map (transform_point (translation_affine f32_neg_inf 0 0)) inf_positions
     = [(f32_nan, f32_nan, f32_nan), (f32_neg_inf, 0, 0)]"
  by (simp add: inf_positions_def translation_affine_def transform_point.simps affine_row_def
        f32_eval f32_inf_def f32_neg_inf_def)

lemma inf_identity_call:
  "transform_bounds (Some (mem_of_bytes (packed inf_positions))) 2 12 0
     (Some identity_matrix) stale_state =
   Some \<lparr> out_min = [f32_one, f32_nan, f32_nan], out_max = [f32_inf, f32_nan, f32_nan],
          store_log = [(Out_Min, 0), (Out_Min, 1), (Out_Min, 2),
                       (Out_Max, 0), (Out_Max, 1), (Out_Max, 2)] \<rparr>"
proof -
  have t: "map (transform_point identity_affine) inf_positions
           = (f32_inf, f32_nan, f32_nan) # [(f32_one, 0, 0)]"
    by (rule inf_identity_transformed)
  show ?thesis
    by (subst packed_call [OF _ _ _ identity_coeffs _ _ t])
       (simp_all add: inf_positions_def stale_state_def coord.simps flt_def fgt_def f32_key_def
          f32_sign_def is_nan_def f32_mag_def inf_mag_def f32_nan_def f32_inf_def f32_one_def)
qed

lemma inf_translation_call:
  "transform_bounds (Some (mem_of_bytes (packed inf_positions))) 2 12 0
     (Some (translation_matrix f32_neg_inf 0 0)) stale_state =
   Some \<lparr> out_min = [f32_nan, f32_nan, f32_nan], out_max = [f32_nan, f32_nan, f32_nan],
          store_log = [(Out_Min, 0), (Out_Min, 1), (Out_Min, 2),
                       (Out_Max, 0), (Out_Max, 1), (Out_Max, 2)] \<rparr>"
proof -
  have t: "map (transform_point (translation_affine f32_neg_inf 0 0)) inf_positions
           = (f32_nan, f32_nan, f32_nan) # [(f32_neg_inf, 0, 0)]"
    by (rule inf_translation_transformed)
  show ?thesis
    by (subst packed_call [OF _ _ _ translation_coeffs _ _ t])
       (simp_all add: inf_positions_def stale_state_def coord.simps flt_def fgt_def f32_key_def
          f32_sign_def is_nan_def f32_mag_def inf_mag_def f32_nan_def f32_neg_inf_def)
qed

text \<open>
  Claim C6, amended. For a defined call with the identity matrix on a non-empty buffer whose
  positions have finite coordinates, and a translation-only matrix whose translation on axis
  \<open>k\<close> is finite: the call with the translation matrix is defined, and its corners on axis
  \<open>k\<close> are numerically equal (IEEE \<^verbatim>\<open>==\<close>) to the corners of the identity call shifted by the
  translation, the shift being one single-precision addition.
\<close>

theorem translation_shifts_bounds:
  assumes "transform_bounds (Some base) vertex_count stride_bytes position_offset
             (Some identity_matrix) s = Some sI"
    and "0 < sint vertex_count" and "k < 3"
    and "\<forall>j < nat (sint vertex_count). \<forall>x y z.
           load_record base (sint stride_bytes) (sint position_offset) (int j) = Some (x, y, z)
           \<longrightarrow> is_finite x \<and> is_finite y \<and> is_finite z"
    and "is_finite ([tx, ty, tz] ! k)"
  shows "\<exists>sT. transform_bounds (Some base) vertex_count stride_bytes position_offset
                (Some (translation_matrix tx ty tz)) s = Some sT
             \<and> feq (out_min sT ! k) (fadd (out_min sI ! k) ([tx, ty, tz] ! k))
             \<and> feq (out_max sT ! k) (fadd (out_max sI ! k) ([tx, ty, tz] ! k))"
proof -
  let ?N = "nat (sint vertex_count)"
  let ?ld = "\<lambda>j. load_record base (sint stride_bytes) (sint position_offset) (int j)"
  define p where "p j = the (?ld j)" for j
  have ld: "?ld j = Some (p j)" if "j < ?N" for j
    using call_no_overflow(2) [OF assms(1,2) that] by (auto simp: p_def)
  from assms(1,2) obtain l: "3 \<le> length (out_min s)" "3 \<le> length (out_max s)"
    by (rule regular_call)
  have "\<exists>sT. transform_bounds (Some base) vertex_count stride_bytes position_offset
                (Some (translation_matrix tx ty tz)) s = Some sT"
    by (rule call_defined [OF assms(2) translation_coeffs _ l]) (simp add: ld)
  then obtain sT where sT: "transform_bounds (Some base) vertex_count stride_bytes position_offset
                (Some (translation_matrix tx ty tz)) s = Some sT"
    by blast
  define cI where "cI j = coord k (transform_point identity_affine (p j))" for j
  define cT where "cT j = coord k (transform_point (translation_affine tx ty tz) (p j))" for j
  have tI: "transformed_coord base stride_bytes position_offset (Some identity_matrix) j k
            = Some (cI j)" if "j < ?N" for j
    by (simp add: transformed_coord_def identity_coeffs ld [OF that] cI_def)
  have tT: "transformed_coord base stride_bytes position_offset
              (Some (translation_matrix tx ty tz)) j k = Some (cT j)" if "j < ?N" for j
    by (simp add: transformed_coord_def translation_coeffs ld [OF that] cT_def)
  have rel: "is_finite (cI j) \<and> \<not> is_nan (cT j)
      \<and> f32_key (cT j) = rounded_key (f32_units (cI j) + f32_units ([tx, ty, tz] ! k))"
    if "j < ?N" for j
  proof -
    obtain x y z where xyz: "p j = (x, y, z)" by (cases "p j")
    have "is_finite x \<and> is_finite y \<and> is_finite z"
      using assms(4) that ld [OF that] xyz by simp
    then show ?thesis
      unfolding cI_def cT_def xyz
      using identity_and_translation [of x y z k tx ty tz] assms(3,5) by simp
  qed
  have nI: "\<not> is_nan (cI j)" if "j < ?N" for j
    using rel [OF that] finite_not_special by simp
  have nT: "\<not> is_nan (cT j)" if "j < ?N" for j
    using rel [OF that] by simp
  note eI = call_extrema [OF assms(1,2,3) tI nI]
  note eT = call_extrema [OF sT assms(2,3) tT nT]
  have all: "\<forall>j\<in>set [0..<?N]. is_finite (cI j) \<and> \<not> is_nan (cT j)
      \<and> f32_key (cT j) = rounded_key (f32_units (cI j) + f32_units ([tx, ty, tz] ! k))"
    using rel by simp
  have "feq (out_min sT ! k) (fadd (out_min sI ! k) ([tx, ty, tz] ! k))"
    by (rule shift_least [OF eI(1) eT(1) all assms(5)])
  moreover have "feq (out_max sT ! k) (fadd (out_max sI ! k) ([tx, ty, tz] ! k))"
    by (rule shift_greatest [OF eI(2) eT(2) all assms(5)])
  ultimately show ?thesis using sT by blast
qed

theorem translation_shifts_bounds_witness:
  "\<exists>sT. transform_bounds (Some (mem_of_bytes (packed example_positions))) 3 12 0
            (Some (translation_matrix f32_one 0 0)) stale_state = Some sT
        \<and> feq (out_min sT ! 0) 0 \<and> feq (out_max sT ! 0) 1073741824"
proof -
  have h2: "0 < sint (3 :: c_int)" by simp
  have h3: "(0 :: nat) < 3" by simp
  have ld: "load_record (mem_of_bytes (packed example_positions)) 12 0 (int j)
            = Some (example_positions ! j)" if "j < 3" for j
    by (rule load_record_packed) (use that in \<open>simp_all add: example_positions_def\<close>)
  have h4: "\<forall>j < nat (sint (3 :: c_int)). \<forall>x y z.
      load_record (mem_of_bytes (packed example_positions)) (sint (12 :: c_int))
        (sint (0 :: c_int)) (int j) = Some (x, y, z)
      \<longrightarrow> is_finite x \<and> is_finite y \<and> is_finite z"
    apply (simp add: all_less_3)
    apply (simp add: ld [of 0, simplified] ld [of 1, simplified] ld [of 2, simplified])
    apply (simp add: example_positions_def is_finite_def f32_mag_def inf_mag_def)
    done
  have h5: "is_finite ([f32_one, 0, 0] ! 0)"
    by (simp add: is_finite_def f32_mag_def inf_mag_def f32_one_def)
  have s: "fadd 3212836864 f32_one = 0" "fadd 1065353216 f32_one = 1073741824"
    by (simp_all add: f32_eval)
  from translation_shifts_bounds [OF example_call h2 h3 h4 h5]
  show ?thesis by (simp add: s)
qed

text \<open>
  The claim as stated fails at an infinite coordinate: for the vertices \<open>(\<infinity>,0,0)\<close>,
  \<open>(1,0,0)\<close> and the translation \<open>(-\<infinity>,0,0)\<close> the identity call has \<open>out_min[0] = 1\<close>, which
  shifted is \<open>-\<infinity>\<close>, and the translated call has \<open>out_min[0] = NaN\<close>.
\<close>

theorem translation_shifts_bounds_counterexample:
  "transform_bounds (Some (mem_of_bytes (packed inf_positions))) 2 12 0
     (Some identity_matrix) stale_state =
   Some \<lparr> out_min = [f32_one, f32_nan, f32_nan], out_max = [f32_inf, f32_nan, f32_nan],
          store_log = [(Out_Min, 0), (Out_Min, 1), (Out_Min, 2),
                       (Out_Max, 0), (Out_Max, 1), (Out_Max, 2)] \<rparr>
   \<and> transform_bounds (Some (mem_of_bytes (packed inf_positions))) 2 12 0
     (Some (translation_matrix f32_neg_inf 0 0)) stale_state =
   Some \<lparr> out_min = [f32_nan, f32_nan, f32_nan], out_max = [f32_nan, f32_nan, f32_nan],
          store_log = [(Out_Min, 0), (Out_Min, 1), (Out_Min, 2),
                       (Out_Max, 0), (Out_Max, 1), (Out_Max, 2)] \<rparr>
   \<and> fadd f32_one f32_neg_inf = f32_neg_inf
   \<and> f32_nan \<noteq> f32_neg_inf \<and> \<not> feq f32_nan f32_neg_inf"
  by (simp add: inf_identity_call inf_translation_call)
     (simp add: f32_eval f32_neg_inf_def)

lemma zero_translation_transformed:
  "map (transform_point (translation_affine f32_neg_zero f32_neg_zero f32_neg_zero)) zero_positions
     = [(f32_neg_zero, f32_neg_zero, f32_neg_zero), (0, 0, 0)]"
  by (simp add: zero_positions_def translation_affine_def transform_point.simps affine_row_def
        f32_eval f32_neg_zero_def)

lemma zero_identity_transformed:
  "map (transform_point identity_affine) zero_positions = [(0, 0, 0), (0, 0, 0)]"
  by (simp add: zero_positions_def identity_affine_def transform_point.simps affine_row_def
        f32_eval f32_neg_zero_def)

lemmas zero_eval = zero_positions_def stale_state_def coord.simps flt_def fgt_def f32_key_def
  f32_sign_def is_nan_def f32_mag_def inf_mag_def f32_neg_zero_def

text \<open>
  Why the amended claims C5 and C6 speak of numerical equality: the two zeros compare equal,
  so the corner keeps the one it met first. With the translation \<open>(-0,-0,-0)\<close> the vertices
  \<open>(-0,-0,-0)\<close>, \<open>(0,0,0)\<close> give the corner \<open>-0\<close>, the same vertices in the other order
  give \<open>+0\<close>, and so does shifting the corner of the identity matrix by \<open>-0\<close>.
\<close>

lemma zero_sign_follows_order:
  "transform_bounds (Some (mem_of_bytes (packed zero_positions))) 2 12 0
     (Some (translation_matrix f32_neg_zero f32_neg_zero f32_neg_zero)) stale_state =
   Some \<lparr> out_min = [f32_neg_zero, f32_neg_zero, f32_neg_zero],
          out_max = [f32_neg_zero, f32_neg_zero, f32_neg_zero],
          store_log = [(Out_Min, 0), (Out_Min, 1), (Out_Min, 2),
                       (Out_Max, 0), (Out_Max, 1), (Out_Max, 2)] \<rparr>"
  "transform_bounds (Some (mem_of_bytes (packed (rev zero_positions)))) 2 12 0
     (Some (translation_matrix f32_neg_zero f32_neg_zero f32_neg_zero)) stale_state =
   Some \<lparr> out_min = [0, 0, 0], out_max = [0, 0, 0],
          store_log = [(Out_Min, 0), (Out_Min, 1), (Out_Min, 2),
                       (Out_Max, 0), (Out_Max, 1), (Out_Max, 2)] \<rparr>"
  "transform_bounds (Some (mem_of_bytes (packed zero_positions))) 2 12 0
     (Some identity_matrix) stale_state =
   Some \<lparr> out_min = [0, 0, 0], out_max = [0, 0, 0],
          store_log = [(Out_Min, 0), (Out_Min, 1), (Out_Min, 2),
                       (Out_Max, 0), (Out_Max, 1), (Out_Max, 2)] \<rparr>"
  "fadd 0 f32_neg_zero = 0" "feq f32_neg_zero 0" "f32_neg_zero \<noteq> 0"
proof -
  let ?M = "translation_affine f32_neg_zero f32_neg_zero f32_neg_zero"
  have t: "map (transform_point ?M) zero_positions
           = (f32_neg_zero, f32_neg_zero, f32_neg_zero) # [(0, 0, 0)]"
    by (rule zero_translation_transformed)
  have r: "map (transform_point ?M) (rev zero_positions)
           = (0, 0, 0) # [(f32_neg_zero, f32_neg_zero, f32_neg_zero)]"
    by (simp only: rev_map [symmetric] zero_translation_transformed rev.simps append.simps)
  have i: "map (transform_point identity_affine) zero_positions = (0, 0, 0) # [(0, 0, 0)]"
    by (rule zero_identity_transformed)
  show "transform_bounds (Some (mem_of_bytes (packed zero_positions))) 2 12 0
     (Some (translation_matrix f32_neg_zero f32_neg_zero f32_neg_zero)) stale_state =
   Some \<lparr> out_min = [f32_neg_zero, f32_neg_zero, f32_neg_zero],
          out_max = [f32_neg_zero, f32_neg_zero, f32_neg_zero],
          store_log = [(Out_Min, 0), (Out_Min, 1), (Out_Min, 2),
                       (Out_Max, 0), (Out_Max, 1), (Out_Max, 2)] \<rparr>"
    by (subst packed_call [OF _ _ _ translation_coeffs _ _ t]) (simp_all add: zero_eval)
  show "transform_bounds (Some (mem_of_bytes (packed (rev zero_positions)))) 2 12 0
     (Some (translation_matrix f32_neg_zero f32_neg_zero f32_neg_zero)) stale_state =
   Some \<lparr> out_min = [0, 0, 0], out_max = [0, 0, 0],
          store_log = [(Out_Min, 0), (Out_Min, 1), (Out_Min, 2),
                       (Out_Max, 0), (Out_Max, 1), (Out_Max, 2)] \<rparr>"
    by (subst packed_call [OF _ _ _ translation_coeffs _ _ r]) (simp_all add: zero_eval)
  show "transform_bounds (Some (mem_of_bytes (packed zero_positions))) 2 12 0
     (Some identity_matrix) stale_state =
   Some \<lparr> out_min = [0, 0, 0], out_max = [0, 0, 0],
          store_log = [(Out_Min, 0), (Out_Min, 1), (Out_Min, 2),
                       (Out_Max, 0), (Out_Max, 1), (Out_Max, 2)] \<rparr>"
    by (subst packed_call [OF _ _ _ identity_coeffs _ _ i]) (simp_all add: zero_eval)
  show "fadd 0 f32_neg_zero = 0" "feq f32_neg_zero 0" "f32_neg_zero \<noteq> 0"
    by (simp_all add: f32_eval f32_neg_zero_def)
qed

end
